theory Spec2Isabelle
  imports Main "HOL-Library.AList"
begin

section \<open>Values, errors and diagnostics\<close>

text \<open>
  The values a store holds are JavaScript values. Numbers are modelled as integers
  (no fractions, no rounding); objects and arrays keep the order in which their entries
  were inserted.
\<close>

datatype jsval =
    VNull
  | VBool bool
  | VNum int
  | VStr string
  | VArr "jsval list"
  | VObj "(string \<times> jsval) list"

text \<open>
  Everything the source can throw, as a value. The first block are the errors of the
  file system, the second those of the parsers and of the language, the third the three
  errors the \<open>Storage\<close> constructor throws itself, the last those of the embedded
  database engine. \<open>Unsupported\<close> is the answer of the parsers of this theory to a text
  outside the fragment they cover.
\<close>

datatype error =
    ENOENT | EISDIR | ENOTDIR
  | YamlError | JsonSyntaxError | TypeError | Unsupported
  | InvalidExtension | InvalidWorldName | InvalidStorageType
  | SqliteCantOpen | SqliteNotADatabase | SqliteReadonly | SqliteMisuse

type_synonym path = "string list"

datatype level = Success | Warn | Error

text \<open>One constructor per logging call of the source; the path stands for \<open>this.relative\<close>.\<close>

datatype event =
    CreatedProperties path
  | InvalidProperties path
  | ParsedProperties path
  | ParsedStorage path
  | FailedReadJson path
  | FailedReadSqlite path
  | ErrorWriteSqlite path

fun level_of :: "event \<Rightarrow> level" where
  "level_of (CreatedProperties _) = Success"
| "level_of (InvalidProperties _) = Warn"
| "level_of (ParsedProperties _) = Success"
| "level_of (ParsedStorage _) = Success"
| "level_of (FailedReadJson _) = Warn"
| "level_of (FailedReadSqlite _) = Warn"
| "level_of (ErrorWriteSqlite _) = Error"

section \<open>Strings and paths\<close>

text \<open>
  A string is a list of 8-bit characters. The texts of the results below are ASCII, where
  the characters of JavaScript and these coincide.
\<close>

text \<open>\<open>s.split(c)\<close> for a one-character separator: never empty, \<open>''''\<close> gives \<open>['''']\<close>.\<close>

fun split_char :: "char \<Rightarrow> string \<Rightarrow> string list" where
  "split_char c [] = [[]]"
| "split_char c (x # xs) =
     (if x = c then [] # split_char c xs
      else (case split_char c xs of [] \<Rightarrow> [[x]] | l # ls \<Rightarrow> (x # l) # ls))"

text \<open>\<open>s.startsWith(p)\<close>.\<close>

fun starts_with :: "string \<Rightarrow> string \<Rightarrow> bool" where
  "starts_with [] s = True"
| "starts_with (p # ps) [] = False"
| "starts_with (p # ps) (x # xs) = (p = x \<and> starts_with ps xs)"

text \<open>
  \<open>s.replace(pat, rep)\<close> with a string pattern: the first occurrence only. The
  replacement the source passes has no \<open>$\<close> in it, so it is inserted as it is.
\<close>

fun replace_first :: "string \<Rightarrow> string \<Rightarrow> string \<Rightarrow> string" where
  "replace_first pat rep [] = (if pat = [] then rep else [])"
| "replace_first pat rep (x # xs) =
     (if starts_with pat (x # xs) then rep @ drop (length pat) (x # xs)
      else x # replace_first pat rep xs)"

text \<open>
  Paths are those of a POSIX host: \<open>/\<close> separates, a backslash is an ordinary character
  of a name. A resolved path is the list of its segments below the root, so the root is
  \<open>[]\<close> and \<open>resolve(p, "..")\<close> of a resolved \<open>p\<close> is \<open>butlast p\<close>.

  \<open>resolve(a1, ..., an)\<close> of \<open>node:path\<close> takes the last absolute argument and what
  follows it (the working directory when no argument is absolute), and normalises:
  empty segments and \<open>.\<close> vanish, \<open>..\<close> removes the segment before it and is dropped
  at the root. Walking the arguments from the left and starting again at the root at each
  absolute one computes the same path.
\<close>

fun norm_segments :: "path \<Rightarrow> string list \<Rightarrow> path" where
  "norm_segments acc [] = acc"
| "norm_segments acc (s # ss) =
     (if s = [] \<or> s = ''.'' then norm_segments acc ss
      else if s = ''..'' then norm_segments (butlast acc) ss
      else norm_segments (acc @ [s]) ss)"

definition is_absolute :: "string \<Rightarrow> bool" where
  "is_absolute s = starts_with ''/'' s"

definition resolve_step :: "path \<Rightarrow> string \<Rightarrow> path" where
  "resolve_step base arg =
     norm_segments (if is_absolute arg then [] else base) (split_char CHR ''/'' arg)"

definition resolve :: "path \<Rightarrow> string list \<Rightarrow> path" where
  "resolve cwd args = foldl resolve_step cwd args"

text \<open>The text of a resolved path.\<close>

definition render :: "path \<Rightarrow> string" where
  "render p = (if p = [] then ''/'' else concat (map (\<lambda>s. ''/'' @ s) p))"

text \<open>
  \<open>extname\<close> of \<open>node:path\<close> on a resolved path: the last name from its last dot on,
  and nothing when the name has no dot or its only dot is its first character.
\<close>

definition ext_of_name :: "string \<Rightarrow> string" where
  "ext_of_name name =
     (let r = takeWhile (\<lambda>c. c \<noteq> CHR ''.'') (rev name) in
      if length r = length name then ''''
      else if length r + 1 = length name then ''''
      else if name = ''..'' then ''''
      else CHR ''.'' # rev r)"

definition extname :: "path \<Rightarrow> string" where
  "extname p = (if p = [] then '''' else ext_of_name (last p))"

section \<open>The host's plugin object and the path of a properties file\<close>

record plugin =
  plugin_path :: string
  plugin_identifier :: string

text \<open>
  Lines 36 to 41 of the \<open>Properties\<close> constructor:
  \<open>resolve(plugin.path.replace("\\plugins\\", "\\config\\"), "..", plugin.identifier, path)\<close>.
  The two string literals are backslash, name, backslash.
\<close>

definition Properties_path :: "path \<Rightarrow> plugin \<Rightarrow> string \<Rightarrow> path" where
  "Properties_path cwd plugin path =
     resolve cwd
       [replace_first (CHR 0x5C # ''plugins'' @ [CHR 0x5C]) (CHR 0x5C # ''config'' @ [CHR 0x5C])
          (plugin_path plugin),
        ''..'', plugin_identifier plugin, path]"

section \<open>Effects\<close>

text \<open>
  A method of the source reads and writes the object and the world around it and either
  returns or throws. It is a function from the state before to the outcome and the state
  after; what was written before a throw stays written.
\<close>

type_synonym ('s, 'a) eff = "'s \<Rightarrow> (error + 'a) \<times> 's"

definition ret :: "'a \<Rightarrow> ('s, 'a) eff" where
  "ret a s = (Inr a, s)"

definition seq :: "('s, 'a) eff \<Rightarrow> ('a \<Rightarrow> ('s, 'b) eff) \<Rightarrow> ('s, 'b) eff" where
  "seq m f s = (case m s of (Inl e, s') \<Rightarrow> (Inl e, s') | (Inr a, s') \<Rightarrow> f a s')"

text \<open>\<open>try { m } catch (e) { h }\<close>\<close>

definition try_catch :: "('s, 'a) eff \<Rightarrow> (error \<Rightarrow> ('s, 'a) eff) \<Rightarrow> ('s, 'a) eff" where
  "try_catch m h s = (case m s of (Inl e, s') \<Rightarrow> h e s' | (Inr a, s') \<Rightarrow> (Inr a, s'))"

section \<open>The file system and the database engine\<close>

text \<open>
  A database file holds the table \<open>key_value\<close> once it has been created (its rows, key
  and serialised value, keys unique) and may be write-protected, in which case the engine
  opens it read-only and every statement that writes fails.
\<close>

record sqlite_db =
  db_table :: "(string \<times> string) list option"
  db_readonly :: bool

datatype node = Dir | File string | Database sqlite_db

type_synonym filesystem = "path \<rightharpoonup> node"

text \<open>
  The world of a store: the file system, the working directory of the process, the
  diagnostics printed so far, and the two module variables \<open>debugEnabled\<close> (one in the
  module of \<open>Properties\<close>, one in that of \<open>Storage\<close>).
\<close>

record world =
  fs :: filesystem
  cwd :: path
  diagnostics :: "event list"
  propertiesDebug :: bool
  storageDebug :: bool

definition is_dir :: "filesystem \<Rightarrow> path \<Rightarrow> bool" where
  "is_dir f p = (p = [] \<or> f p = Some Dir)"

definition existsSync :: "path \<Rightarrow> (filesystem, bool) eff" where
  "existsSync p f = (Inr (p = [] \<or> f p \<noteq> None), f)"

text \<open>\<open>mkdirSync(p, { recursive: true })\<close>: every missing directory on the way is made.\<close>

fun mkdirs :: "path \<Rightarrow> string list \<Rightarrow> (filesystem, unit) eff" where
  "mkdirs acc [] f = (Inr (), f)"
| "mkdirs acc (s # ss) f =
     (case f (acc @ [s]) of
        None \<Rightarrow> mkdirs (acc @ [s]) ss (f(acc @ [s] \<mapsto> Dir))
      | Some Dir \<Rightarrow> mkdirs (acc @ [s]) ss f
      | Some _ \<Rightarrow> (Inl ENOTDIR, f))"

definition mkdirSync :: "path \<Rightarrow> (filesystem, unit) eff" where
  "mkdirSync p = mkdirs [] p"

definition writeFileSync :: "path \<Rightarrow> string \<Rightarrow> (filesystem, unit) eff" where
  "writeFileSync p s f =
     (if is_dir f p then (Inl EISDIR, f)
      else if \<not> is_dir f (butlast p) then (Inl ENOENT, f)
      else (Inr (), f(p \<mapsto> File s)))"

text \<open>
  A database image read as text is no document of either parser (its header has a NUL
  byte); the model raises at the read, one statement before the parse that would throw,
  inside the same \<open>try\<close> scope of every caller.
\<close>

definition readFileSync :: "path \<Rightarrow> (filesystem, string) eff" where
  "readFileSync p f =
     (case f p of
        Some (File s) \<Rightarrow> (Inr s, f)
      | Some Dir \<Rightarrow> (Inl EISDIR, f)
      | Some (Database _) \<Rightarrow> (Inl Unsupported, f)
      | None \<Rightarrow> (Inl (if p = [] then EISDIR else ENOENT), f))"

text \<open>\<open>rmSync(p)\<close> without options: removes a file, refuses a directory or nothing.\<close>

definition rmSync :: "path \<Rightarrow> (filesystem, unit) eff" where
  "rmSync p f =
     (case f p of
        Some Dir \<Rightarrow> (Inl EISDIR, f)
      | Some _ \<Rightarrow> (Inr (), f(p := None))
      | None \<Rightarrow> (Inl (if p = [] then EISDIR else ENOENT), f))"

text \<open>Running a file-system call, or a logging call, from a method of an object.\<close>

definition on_fs :: "(filesystem, 'a) eff \<Rightarrow> ('o \<times> world, 'a) eff" where
  "on_fs m s = (case s of (obj, w) \<Rightarrow> (case m (fs w) of (r, f') \<Rightarrow> (r, obj, w\<lparr>fs := f'\<rparr>)))"

definition emit :: "event \<Rightarrow> ('o \<times> world, unit) eff" where
  "emit ev s = (case s of (obj, w) \<Rightarrow> (Inr (), obj, w\<lparr>diagnostics := diagnostics w @ [ev]\<rparr>))"

section \<open>Properties\<close>

text \<open>
  \<open>values\<close> is what \<open>parse\<close> returned: \<open>None\<close> is JavaScript's \<open>null\<close> (an empty
  document), \<open>Some\<close> a mapping with its keys in order. Documents whose top level is a
  scalar or a sequence are not modelled.

  \<open>parse\<close> of the package \<open>yaml\<close> is a parameter of every operation.
\<close>

type_synonym doc = "(string \<times> jsval) list option"

type_synonym yaml_parse = "string \<Rightarrow> error + doc"

record props =
  p_path :: path
  p_template :: string
  p_raw :: string
  p_values :: doc

text \<open>
  \<open>`${value}`\<close>: the text of a value inside a template literal. Integers print in
  decimal (the notation of JavaScript below \<open>10^21\<close>).
\<close>

definition digit_char :: "nat \<Rightarrow> char" where
  "digit_char d = ''0123456789'' ! d"

fun show_nat :: "nat \<Rightarrow> string" where
  "show_nat n = (if n < 10 then [digit_char n] else show_nat (n div 10) @ [digit_char (n mod 10)])"

declare show_nat.simps [simp del]

definition show_int :: "int \<Rightarrow> string" where
  "show_int i = (if i < 0 then CHR ''-'' # show_nat (nat (- i)) else show_nat (nat i))"

fun join_with :: "string \<Rightarrow> string list \<Rightarrow> string" where
  "join_with sep [] = []"
| "join_with sep [x] = x"
| "join_with sep (x # y # ys) = x @ sep @ join_with sep (y # ys)"

fun to_string :: "jsval \<Rightarrow> string" where
  "to_string VNull = ''null''"
| "to_string (VBool b) = (if b then ''true'' else ''false'')"
| "to_string (VNum i) = show_int i"
| "to_string (VStr s) = s"
| "to_string (VArr xs) = join_with '','' (map (\<lambda>x. if x = VNull then [] else to_string x) xs)"
| "to_string (VObj kvs) = ''[object Object]''"

text \<open>
  \<open>s.split(sep)\<close> for a string separator: the pieces between the occurrences of
  \<open>sep\<close>, found from the left without overlap; an empty separator gives the characters.
\<close>

fun split_str :: "string \<Rightarrow> string \<Rightarrow> string list" where
  "split_str [] s = map (\<lambda>c. [c]) s"
| "split_str (a # sep) [] = [[]]"
| "split_str (a # sep) (x # xs) =
     (if starts_with (a # sep) (x # xs) then [] # split_str (a # sep) (drop (length sep) xs)
      else (case split_str (a # sep) xs of [] \<Rightarrow> [[x]] | l # ls \<Rightarrow> (x # l) # ls))"

text \<open>
  \<open>raw.replaceAll(new RegExp(`^${key}:.*$`, "gm"), repl)\<close>. With the flag \<open>m\<close>,
  \<open>^\<close> and \<open>$\<close> match at the line terminators and \<open>.\<close> matches none of them, so
  every line that begins with \<open>key:\<close> is replaced, whole. In the replacement \<open>$$\<close>
  stands for a dollar, \<open>$&\<close> for the matched line, \<open>$`\<close> and \<open>$'\<close> for the text
  before and after it; the pattern has no group, so any other \<open>$\<close> is itself.

  The key is taken literally: this is the meaning of the pattern for a key without
  characters of the regular-expression syntax and without line terminators, see
  \<open>regex_literal\<close>. Other keys are outside this model of \<open>setValue\<close>, and so are
  the two line separators of Unicode beyond ASCII.
\<close>

definition line_terminator :: "char \<Rightarrow> bool" where
  "line_terminator c = (c = CHR 10 \<or> c = CHR 13)"

definition regex_literal :: "string \<Rightarrow> bool" where
  "regex_literal key =
     (\<forall>c \<in> set key. \<not> line_terminator c \<and> c \<notin> set (CHR 0x5C # ''^$.|?*+()[]{}/''))"

fun expand_replacement :: "string \<Rightarrow> string \<Rightarrow> string \<Rightarrow> string \<Rightarrow> string" where
  "expand_replacement [] matched pre post = []"
| "expand_replacement [c] matched pre post = [c]"
| "expand_replacement (c # d # r) matched pre post =
     (if c = CHR ''$'' \<and> d = CHR ''$'' then CHR ''$'' # expand_replacement r matched pre post
      else if c = CHR ''$'' \<and> d = CHR ''&'' then matched @ expand_replacement r matched pre post
      else if c = CHR ''$'' \<and> d = CHR 0x60 then pre @ expand_replacement r matched pre post
      else if c = CHR ''$'' \<and> d = CHR 0x27 then post @ expand_replacement r matched pre post
      else c # expand_replacement (d # r) matched pre post)"

function replace_from :: "string \<Rightarrow> string \<Rightarrow> string \<Rightarrow> bool \<Rightarrow> string \<Rightarrow> string" where
  "replace_from key repl pre at_start [] = []"
| "replace_from key repl pre at_start (x # xs) =
     (if at_start \<and> starts_with (key @ '':'') (x # xs) then
        (let matched = x # takeWhile (\<lambda>c. \<not> line_terminator c) xs;
             post = dropWhile (\<lambda>c. \<not> line_terminator c) xs
         in expand_replacement repl matched pre post
            @ replace_from key repl (pre @ matched) False post)
      else x # replace_from key repl (pre @ [x]) (line_terminator x) xs)"
  by pat_completeness auto
termination
  by (relation "measure (\<lambda>(key, repl, pre, at_start, s). length s)")
     (auto simp: le_imp_less_Suc length_dropWhile_le)

definition replace_key_lines :: "string \<Rightarrow> string \<Rightarrow> string \<Rightarrow> string" where
  "replace_key_lines key repl raw = replace_from key repl [] True raw"

text \<open>State access from a method of \<open>Properties\<close>.\<close>

definition of_sum :: "error + 'a \<Rightarrow> ('s, 'a) eff" where
  "of_sum r s = (r, s)"

definition set_raw :: "string \<Rightarrow> (props \<times> world, unit) eff" where
  "set_raw r s = (case s of (obj, w) \<Rightarrow> (Inr (), obj\<lparr>p_raw := r\<rparr>, w))"

definition set_values :: "doc \<Rightarrow> (props \<times> world, unit) eff" where
  "set_values d s = (case s of (obj, w) \<Rightarrow> (Inr (), obj\<lparr>p_values := d\<rparr>, w))"

definition debug_properties :: "event \<Rightarrow> (props \<times> world, unit) eff" where
  "debug_properties ev s = (if propertiesDebug (snd s) then emit ev s else ret () s)"

text \<open>\<open>read()\<close>, lines 93 to 121.\<close>

definition Properties_read :: "yaml_parse \<Rightarrow> (props \<times> world, doc) eff" where
  "Properties_read P s =
     (let path = p_path (fst s); folderPath = butlast path in
      seq (seq (on_fs (existsSync folderPath))
             (\<lambda>ex. if \<not> ex then on_fs (mkdirSync folderPath) else ret ()))
      (\<lambda>_. seq (seq (on_fs (existsSync path))
             (\<lambda>ex. if \<not> ex then
                      seq (on_fs (mkdirSync folderPath))
                      (\<lambda>_. seq (on_fs (writeFileSync path (p_template (fst s))))
                      (\<lambda>_. debug_properties (CreatedProperties path)))
                    else ret ()))
      (\<lambda>_. seq (on_fs (readFileSync path))
      (\<lambda>properties. seq (set_raw properties)
      (\<lambda>_. of_sum (P properties))))) s)"

text \<open>\<open>write()\<close>, lines 126 to 131.\<close>

definition Properties_write :: "yaml_parse \<Rightarrow> (props \<times> world, unit) eff" where
  "Properties_write P s =
     seq (on_fs (writeFileSync (p_path (fst s)) (p_raw (fst s))))
     (\<lambda>_. seq (Properties_read P) set_values) s"

text \<open>
  \<open>getValue(key)\<close>: \<open>this.values[key]\<close>, which throws on \<open>null\<close> and is
  \<open>undefined\<close> (here \<open>None\<close>) for a key that is not there.
\<close>

definition Properties_getValue :: "props \<Rightarrow> string \<Rightarrow> error + jsval option" where
  "Properties_getValue obj key =
     (case p_values obj of None \<Rightarrow> Inl TypeError | Some vs \<Rightarrow> Inr (map_of vs key))"

text \<open>
  \<open>setValue\<close> below its guard (lines 158 to 168) and \<open>addValue\<close> below its guard
  (lines 182 to 191). \<open>this.values[key] = value\<close> keeps the place of a key that is
  there and appends one that is not.
\<close>

definition assign_value :: "string \<Rightarrow> jsval \<Rightarrow> (props \<times> world, unit) eff" where
  "assign_value key v s =
     (case s of (obj, w) \<Rightarrow>
        (case p_values obj of
           None \<Rightarrow> (Inl TypeError, s)
         | Some vs \<Rightarrow> (Inr (), obj\<lparr>p_values := Some (AList.update key v vs)\<rparr>, w)))"

definition setValue_direct :: "yaml_parse \<Rightarrow> string \<Rightarrow> jsval \<Rightarrow> (props \<times> world, unit) eff" where
  "setValue_direct P key v =
     seq (assign_value key v)
     (\<lambda>_. seq (\<lambda>s. set_raw (replace_key_lines key (key @ '': '' @ to_string v) (p_raw (fst s))) s)
     (\<lambda>_. Properties_write P))"

definition truthy :: "string option \<Rightarrow> bool" where
  "truthy m = (case m of None \<Rightarrow> False | Some t \<Rightarrow> t \<noteq> [])"

definition added_text :: "string \<Rightarrow> jsval \<Rightarrow> string option \<Rightarrow> string" where
  "added_text key v message =
     [CHR 10] @ key @ '': '' @ to_string v @ [CHR 10]
     @ (if truthy message then ''# '' @ the message @ [CHR 10] else [])"

definition addValue_direct ::
    "yaml_parse \<Rightarrow> string \<Rightarrow> jsval \<Rightarrow> string option \<Rightarrow> (props \<times> world, unit) eff" where
  "addValue_direct P key v message =
     seq (assign_value key v)
     (\<lambda>_. seq (\<lambda>s. set_raw (p_raw (fst s) @ added_text key v message) s)
     (\<lambda>_. Properties_write P))"

text \<open>
  \<open>setValue\<close> (lines 147 to 169) and \<open>addValue\<close> (lines 176 to 192) call each other.
  \<open>Object.keys(this.values)\<close> throws when \<open>values\<close> is \<open>null\<close>.
\<close>

function Properties_setValue :: "yaml_parse \<Rightarrow> string \<Rightarrow> jsval \<Rightarrow> (props \<times> world, unit) eff"
  and Properties_addValue ::
    "yaml_parse \<Rightarrow> string \<Rightarrow> jsval \<Rightarrow> string option \<Rightarrow> (props \<times> world, unit) eff" where
  "Properties_setValue P key v s =
     (case p_values (fst s) of
        None \<Rightarrow> (Inl TypeError, s)
      | Some vs \<Rightarrow>
          if key \<notin> set (map fst vs) then Properties_addValue P key v None s
          else setValue_direct P key v s)"
| "Properties_addValue P key v message s =
     (case p_values (fst s) of
        None \<Rightarrow> (Inl TypeError, s)
      | Some vs \<Rightarrow>
          if key \<in> set (map fst vs) then Properties_setValue P key v s
          else addValue_direct P key v message s)"
  by pat_completeness auto
termination
  by (relation "measure (\<lambda>c. case c of
          Inl (P, key, v, s) \<Rightarrow>
            (case p_values (fst s) of Some vs \<Rightarrow> if key \<in> set (map fst vs) then 0 else 1 | None \<Rightarrow> 0)
        | Inr (P, key, v, message, s) \<Rightarrow>
            (case p_values (fst s) of Some vs \<Rightarrow> if key \<in> set (map fst vs) then 1 else 0 | None \<Rightarrow> 0))")
     auto

declare Properties_setValue.simps [simp del] Properties_addValue.simps [simp del]

text \<open>The comment of a key in the template, lines 71 to 76.\<close>

definition template_comment :: "string \<Rightarrow> string \<Rightarrow> string" where
  "template_comment template key =
     (case drop 1 (split_str (CHR 10 # key @ '':'') template) of
        [] \<Rightarrow> []
      | fetch # _ \<Rightarrow>
          if fetch = [] then []
          else (case drop 1 (split_char (CHR 10) fetch) of
                  [] \<Rightarrow> []
                | l # _ \<Rightarrow> if starts_with ''#'' l then l else []))"

text \<open>The loop of lines 68 to 81 over the keys of the template's defaults.\<close>

fun reconcile :: "yaml_parse \<Rightarrow> (string \<times> jsval) list \<Rightarrow> (props \<times> world, unit) eff" where
  "reconcile P [] s = (Inr (), s)"
| "reconcile P ((key, dv) # rest) s =
     (case p_values (fst s) of
        None \<Rightarrow> (Inl TypeError, s)
      | Some vs \<Rightarrow>
          if key \<notin> set (map fst vs) then
            (case Properties_addValue P key dv (Some (template_comment (p_template (fst s)) key)) s of
               (Inl e, s') \<Rightarrow> (Inl e, s')
             | (Inr _, s') \<Rightarrow> reconcile P rest s')
          else reconcile P rest s)"

text \<open>
  The constructor, lines 35 to 87. \<open>for (const key in defaultProperties)\<close> runs over
  no key when the template is an empty document.
\<close>

definition Properties_init :: "yaml_parse \<Rightarrow> (props \<times> world, unit) eff" where
  "Properties_init P s =
     seq (try_catch (seq (Properties_read P) set_values) (\<lambda>e. set_values None))
     (\<lambda>_. seq (\<lambda>s1. if p_values (fst s1) = None then
                     seq (on_fs (rmSync (p_path (fst s1))))
                     (\<lambda>_. seq (seq (Properties_read P) set_values)
                     (\<lambda>_. debug_properties (InvalidProperties (p_path (fst s1))))) s1
                   else ret () s1)
     (\<lambda>_. seq (of_sum (P (p_template (fst s))))
     (\<lambda>defaultProperties.
        seq (reconcile P (case defaultProperties of None \<Rightarrow> [] | Some d \<Rightarrow> d))
     (\<lambda>_. debug_properties (ParsedProperties (p_path (fst s))))))) s"

definition Properties_new ::
    "yaml_parse \<Rightarrow> plugin \<Rightarrow> string \<Rightarrow> string \<Rightarrow> (world, props) eff" where
  "Properties_new P plugin path template w =
     (case Properties_init P
             (\<lparr>p_path = Properties_path (cwd w) plugin path, p_template = template,
               p_raw = [], p_values = None\<rparr>, w) of
        (Inl e, obj, w') \<Rightarrow> (Inl e, w')
      | (Inr _, obj, w') \<Rightarrow> (Inr obj, w'))"

section \<open>A line-oriented fragment of YAML\<close>

text \<open>
  The configuration files of the specification are line-oriented: one \<open>key: value\<close> per
  top-level line, comment lines that begin with \<open>#\<close>, blank lines. \<open>yaml_lines\<close> is
  \<open>parse\<close> of the package \<open>yaml\<close> (YAML 1.2, core schema) on that fragment:
  \<^item> a key is a word of letters, digits, \<open>_\<close> and \<open>-\<close> that begins with a letter or
    \<open>_\<close>, the colon follows it at once, and no key occurs twice;
  \<^item> a plain value is empty or \<open>null\<close> (null), \<open>true\<close> or \<open>false\<close> (a boolean), a
    decimal integer of at most fifteen digits in its shortest notation (a number), or words
    of letters, digits and \<open>_\<close> that begin with a letter (a string);
  \<^item> a value between double quotes, of printable characters without a double quote or a
    backslash, is the string between the quotes;
  \<^item> a document without any key is \<open>null\<close>.
  Two kinds of text are syntax errors, as they are for the package: a line whose value is
  itself \<open>key: value\<close> with a plain value that is not empty (a mapping nested in the line
  of its key), and a text that opens a flow mapping with \<open>{\<close> and has no \<open>}\<close> to close
  it. Every other text is answered with \<open>Unsupported\<close>, whatever the package does with
  it, and no result below rests on such an answer. The words that some schema of YAML
  reads as a boolean or as null are kept out of keys and of plain strings.
\<close>

definition is_letter :: "char \<Rightarrow> bool" where
  "is_letter c = (let n = (of_char c :: nat) in (65 \<le> n \<and> n \<le> 90) \<or> (97 \<le> n \<and> n \<le> 122))"

definition is_digit :: "char \<Rightarrow> bool" where
  "is_digit c = (let n = (of_char c :: nat) in 48 \<le> n \<and> n \<le> 57)"

definition reserved_words :: "string list" where
  "reserved_words =
     [''null'', ''Null'', ''NULL'', ''true'', ''True'', ''TRUE'', ''false'', ''False'', ''FALSE'',
      ''yes'', ''Yes'', ''YES'', ''no'', ''No'', ''NO'', ''on'', ''On'', ''ON'',
      ''off'', ''Off'', ''OFF'', ''y'', ''Y'', ''n'', ''N'']"

definition valid_key :: "string \<Rightarrow> bool" where
  "valid_key k =
     (k \<noteq> [] \<and> (is_letter (hd k) \<or> hd k = CHR ''_'')
      \<and> list_all (\<lambda>c. is_letter c \<or> is_digit c \<or> c = CHR ''_'' \<or> c = CHR ''-'') k
      \<and> k \<notin> set reserved_words)"

definition valid_string :: "string \<Rightarrow> bool" where
  "valid_string t =
     (t \<noteq> [] \<and> is_letter (hd t) \<and> last t \<noteq> CHR '' ''
      \<and> list_all (\<lambda>c. is_letter c \<or> is_digit c \<or> c = CHR ''_'' \<or> c = CHR '' '') t
      \<and> t \<notin> set reserved_words)"

definition read_nat :: "string \<Rightarrow> nat" where
  "read_nat t = foldl (\<lambda>n c. 10 * n + (of_char c - 48)) 0 t"

definition valid_number :: "int \<Rightarrow> bool" where
  "valid_number i = (- (10 ^ 15) < i \<and> i < 10 ^ 15)"

definition resolve_int :: "string \<Rightarrow> int option" where
  "resolve_int t =
     (let i = (case t of [] \<Rightarrow> 0
               | c # r \<Rightarrow> if c = CHR ''-'' then - int (read_nat r) else int (read_nat t))
      in if show_int i = t \<and> valid_number i then Some i else None)"

definition trim :: "string \<Rightarrow> string" where
  "trim t = rev (dropWhile (\<lambda>c. c = CHR '' '') (rev (dropWhile (\<lambda>c. c = CHR '' '') t)))"

definition resolve_scalar :: "string \<Rightarrow> jsval option" where
  "resolve_scalar t =
     (if t = [] \<or> t = ''null'' then Some VNull
      else if t = ''true'' then Some (VBool True)
      else if t = ''false'' then Some (VBool False)
      else if is_letter (hd t) then (if valid_string t then Some (VStr t) else None)
      else map_option VNum (resolve_int t))"

definition printable :: "char \<Rightarrow> bool" where
  "printable c = (let n = (of_char c :: nat) in 32 \<le> n \<and> n \<le> 126)"

definition double_quoted :: "string \<Rightarrow> string option" where
  "double_quoted t =
     (if 2 \<le> length t \<and> hd t = CHR 0x22 \<and> last t = CHR 0x22
         \<and> list_all (\<lambda>c. printable c \<and> c \<noteq> CHR 0x22 \<and> c \<noteq> CHR 0x5C) (butlast (tl t))
      then Some (butlast (tl t)) else None)"

definition nested_entry :: "string \<Rightarrow> bool" where
  "nested_entry t =
     (let k = takeWhile (\<lambda>c. c \<noteq> CHR '':'') t;
          r = dropWhile (\<lambda>c. c \<noteq> CHR '':'') t
      in valid_key k \<and> r \<noteq> [] \<and> tl r \<noteq> [] \<and> hd (tl r) = CHR '' '' \<and> trim (tl r) \<noteq> []
         \<and> resolve_scalar (trim (tl r)) \<noteq> None)"

datatype yaml_line = Skip | Entry string jsval | Invalid | Bad

definition resolve_value :: "string \<Rightarrow> string \<Rightarrow> yaml_line" where
  "resolve_value k t =
     (case resolve_scalar t of
        Some v \<Rightarrow> Entry k v
      | None \<Rightarrow>
          (case double_quoted t of
             Some q \<Rightarrow> Entry k (VStr q)
           | None \<Rightarrow> if nested_entry t then Invalid else Bad))"

definition classify :: "string \<Rightarrow> yaml_line" where
  "classify l =
     (if list_all (\<lambda>c. c = CHR '' '') l then Skip
      else if hd l = CHR ''#'' then (if list_all printable l then Skip else Bad)
      else
        (let k = takeWhile (\<lambda>c. c \<noteq> CHR '':'') l;
             r = dropWhile (\<lambda>c. c \<noteq> CHR '':'') l
         in if r = [] \<or> \<not> valid_key k then Bad
            else if tl r \<noteq> [] \<and> hd (tl r) \<noteq> CHR '' '' then Bad
            else resolve_value k (trim (tl r))))"

fun parse_lines :: "(string \<times> jsval) list \<Rightarrow> string list \<Rightarrow> error + (string \<times> jsval) list" where
  "parse_lines acc [] = Inr acc"
| "parse_lines acc (l # ls) =
     (case classify l of
        Skip \<Rightarrow> parse_lines acc ls
      | Entry k v \<Rightarrow>
          if k \<in> set (map fst acc) then Inl Unsupported else parse_lines (acc @ [(k, v)]) ls
      | Invalid \<Rightarrow> Inl YamlError
      | Bad \<Rightarrow> Inl Unsupported)"

definition yaml_lines :: yaml_parse where
  "yaml_lines s =
     (case parse_lines [] (split_char (CHR 10) s) of
        Inl e \<Rightarrow> Inl (if starts_with ''{'' s \<and> CHR ''}'' \<notin> set s then YamlError else e)
      | Inr [] \<Rightarrow> Inr None
      | Inr (e # es) \<Rightarrow> Inr (Some (e # es)))"

section \<open>Storage\<close>

text \<open>
  \<open>JSON.stringify(value)\<close> and \<open>JSON.stringify(value, null, 2)\<close>: the first argument of
  \<open>json_text\<close> is the width of an indentation step, \<open>0\<close> for the compact form.
\<close>

definition hex_char :: "nat \<Rightarrow> char" where
  "hex_char d = ''0123456789abcdef'' ! d"

definition json_escape :: "char \<Rightarrow> string" where
  "json_escape c =
     (if c = CHR 0x22 then [CHR 0x5C, CHR 0x22]
      else if c = CHR 0x5C then [CHR 0x5C, CHR 0x5C]
      else if c = CHR 8 then [CHR 0x5C, CHR ''b'']
      else if c = CHR 12 then [CHR 0x5C, CHR ''f'']
      else if c = CHR 10 then [CHR 0x5C, CHR ''n'']
      else if c = CHR 13 then [CHR 0x5C, CHR ''r'']
      else if c = CHR 9 then [CHR 0x5C, CHR ''t'']
      else if (of_char c :: nat) < 32 then
        CHR 0x5C # ''u00'' @ [hex_char ((of_char c :: nat) div 16), hex_char ((of_char c :: nat) mod 16)]
      else [c])"

definition json_quote :: "string \<Rightarrow> string" where
  "json_quote t = CHR 0x22 # concat (map json_escape t) @ [CHR 0x22]"

definition json_block :: "nat \<Rightarrow> nat \<Rightarrow> char \<Rightarrow> char \<Rightarrow> string list \<Rightarrow> string" where
  "json_block step depth opening closing items =
     (if items = [] then [opening, closing]
      else if step = 0 then opening # join_with '','' items @ [closing]
      else opening # CHR 10 # replicate (step * Suc depth) CHR '' ''
           @ join_with (CHR '','' # CHR 10 # replicate (step * Suc depth) CHR '' '') items
           @ CHR 10 # replicate (step * depth) CHR '' '' @ [closing])"

fun json_text :: "nat \<Rightarrow> nat \<Rightarrow> jsval \<Rightarrow> string" where
  "json_text step depth VNull = ''null''"
| "json_text step depth (VBool b) = (if b then ''true'' else ''false'')"
| "json_text step depth (VNum i) = show_int i"
| "json_text step depth (VStr t) = json_quote t"
| "json_text step depth (VArr xs) =
     json_block step depth CHR ''['' CHR '']'' (map (json_text step (Suc depth)) xs)"
| "json_text step depth (VObj kvs) =
     json_block step depth CHR ''{'' CHR ''}''
       (map (\<lambda>kv. json_quote (fst kv) @ (if step = 0 then '':'' else '': '')
                   @ json_text step (Suc depth) (snd kv)) kvs)"

definition json_stringify :: "jsval \<Rightarrow> string" where
  "json_stringify v = json_text 0 0 v"

definition json_stringify_indented :: "jsval \<Rightarrow> string" where
  "json_stringify_indented v = json_text 2 0 v"

text \<open>\<open>JSON.parse\<close> is a parameter of every operation that reads.\<close>

type_synonym json_parse = "string \<Rightarrow> error + jsval"

text \<open>
  \<open>{ ...a, ...b }\<close>: the entries of \<open>a\<close>, each overridden by the entry of \<open>b\<close> with
  its key, then the entries of \<open>b\<close> under new keys. What \<open>...b\<close> spreads are the own
  properties of \<open>b\<close>: the entries of an object, the elements of an array and the
  characters of a string under their indices, nothing for the other values.
\<close>

definition spread :: "(string \<times> jsval) list \<Rightarrow> (string \<times> jsval) list \<Rightarrow> (string \<times> jsval) list" where
  "spread a b = fold (\<lambda>kv. AList.update (fst kv) (snd kv)) b a"

fun own_props :: "jsval \<Rightarrow> (string \<times> jsval) list" where
  "own_props (VObj kvs) = kvs"
| "own_props (VArr xs) = zip (map show_nat [0 ..< length xs]) xs"
| "own_props (VStr t) = zip (map show_nat [0 ..< length t]) (map (\<lambda>c. VStr [c]) t)"
| "own_props _ = []"

text \<open>
  Modelled from the spec: the enumeration \<open>StorageType\<close> (\<open>Enums/storageType\<close> is not
  among the sources), the three domains Player, World and Server. \<open>OtherType\<close> stands
  for any value at run time that is none of the three.
\<close>

datatype StorageType = World | Player | Server | OtherType

datatype backend = Json | Sqlite

record storage =
  s_path :: path
  s_type :: backend
  s_values :: "(string \<times> jsval) list"

text \<open>\<open>!world\<close>: no name was passed, or the empty one.\<close>

definition no_world :: "string option \<Rightarrow> bool" where
  "no_world world = (case world of None \<Rightarrow> True | Some n \<Rightarrow> n = [])"

text \<open>\<open>resolvePath\<close>, lines 301 to 322.\<close>

definition resolvePath :: "path \<Rightarrow> StorageType \<Rightarrow> string \<Rightarrow> string option \<Rightarrow> error + path" where
  "resolvePath dir type path world =
     (case type of
        World \<Rightarrow>
          if no_world world then Inl InvalidWorldName
          else Inr (resolve (resolve dir [''worlds'', the world, ''plugindata'']) [path])
      | Player \<Rightarrow> Inr (resolve (resolve dir [''playerdata'']) [path])
      | Server \<Rightarrow> Inr (resolve (resolve dir [''plugindata'']) [path])
      | OtherType \<Rightarrow> Inl InvalidStorageType)"

text \<open>
  The database engine. \<open>new Database(path)\<close> opens the file, making it when it is not
  there; an empty file is an empty database, any other text is none. The statement of
  line 341 makes the table unless it is there; \<open>prepare\<close> needs the table; \<open>getAll.all()\<close>
  returns the rows; \<open>setValue.run\<close> inserts the row or, on a conflict of keys, updates it.
\<close>

definition sqlite_open :: "path \<Rightarrow> (filesystem, unit) eff" where
  "sqlite_open p f =
     (case f p of
        None \<Rightarrow>
          if p \<noteq> [] \<and> is_dir f (butlast p)
          then (Inr (), f(p \<mapsto> Database \<lparr>db_table = None, db_readonly = False\<rparr>))
          else (Inl SqliteCantOpen, f)
      | Some Dir \<Rightarrow> (Inl SqliteCantOpen, f)
      | Some (File t) \<Rightarrow>
          if t = [] then (Inr (), f(p \<mapsto> Database \<lparr>db_table = None, db_readonly = False\<rparr>))
          else (Inl SqliteNotADatabase, f)
      | Some (Database d) \<Rightarrow> (Inr (), f))"

definition sqlite_create_table :: "path \<Rightarrow> (filesystem, unit) eff" where
  "sqlite_create_table p f =
     (case f p of
        Some (Database d) \<Rightarrow>
          (case db_table d of
             Some rows \<Rightarrow> (Inr (), f)
           | None \<Rightarrow>
               if db_readonly d then (Inl SqliteReadonly, f)
               else (Inr (), f(p \<mapsto> Database (d\<lparr>db_table := Some []\<rparr>))))
      | _ \<Rightarrow> (Inl SqliteMisuse, f))"

definition sqlite_all :: "path \<Rightarrow> (filesystem, (string \<times> string) list) eff" where
  "sqlite_all p f =
     (case f p of
        Some (Database d) \<Rightarrow>
          (case db_table d of Some rows \<Rightarrow> (Inr rows, f) | None \<Rightarrow> (Inl SqliteMisuse, f))
      | _ \<Rightarrow> (Inl SqliteMisuse, f))"

definition sqlite_prepare :: "path \<Rightarrow> (filesystem, unit) eff" where
  "sqlite_prepare p f = (case sqlite_all p f of (Inl e, f') \<Rightarrow> (Inl e, f') | (Inr _, f') \<Rightarrow> (Inr (), f'))"

definition sqlite_upsert :: "path \<Rightarrow> string \<Rightarrow> string \<Rightarrow> (filesystem, unit) eff" where
  "sqlite_upsert p key text f =
     (case f p of
        Some (Database d) \<Rightarrow>
          (case db_table d of
             Some rows \<Rightarrow>
               if db_readonly d then (Inl SqliteReadonly, f)
               else (Inr (), f(p \<mapsto> Database (d\<lparr>db_table := Some (AList.update key text rows)\<rparr>)))
           | None \<Rightarrow> (Inl SqliteMisuse, f))
      | _ \<Rightarrow> (Inl SqliteMisuse, f))"

definition set_storage_values :: "(string \<times> jsval) list \<Rightarrow> (storage \<times> world, unit) eff" where
  "set_storage_values vs s = (case s of (obj, w) \<Rightarrow> (Inr (), obj\<lparr>s_values := vs\<rparr>, w))"

definition debug_storage :: "event \<Rightarrow> (storage \<times> world, unit) eff" where
  "debug_storage ev s = (if storageDebug (snd s) then emit ev s else ret () s)"

text \<open>\<open>writeJson\<close>, lines 408 to 411.\<close>

definition Storage_writeJson :: "(storage \<times> world, unit) eff" where
  "Storage_writeJson s =
     on_fs (writeFileSync (s_path (fst s)) (json_stringify_indented (VObj (s_values (fst s))))) s"

text \<open>\<open>readJson\<close>, lines 391 to 403.\<close>

definition Storage_readJson :: "json_parse \<Rightarrow> (storage \<times> world, unit) eff" where
  "Storage_readJson J s =
     try_catch
       (seq (on_fs (readFileSync (s_path (fst s))))
       (\<lambda>rawData. seq (of_sum (J rawData))
       (\<lambda>jsonData. set_storage_values (spread (s_values (fst s)) (own_props jsonData)))))
       (\<lambda>e. debug_storage (FailedReadJson (s_path (fst s)))) s"

text \<open>\<open>writeSqlite\<close>, lines 448 to 459.\<close>

definition Storage_writeSqlite :: "string \<Rightarrow> jsval \<Rightarrow> (storage \<times> world, unit) eff" where
  "Storage_writeSqlite key v s =
     try_catch (on_fs (sqlite_upsert (s_path (fst s)) key (json_stringify v)))
       (\<lambda>e. emit (ErrorWriteSqlite (s_path (fst s)))) s"

text \<open>\<open>readSqlite\<close>, lines 416 to 441.\<close>

fun parse_rows ::
    "json_parse \<Rightarrow> (string \<times> jsval) list \<Rightarrow> (string \<times> string) list \<Rightarrow> error + (string \<times> jsval) list" where
  "parse_rows J dbValues [] = Inr dbValues"
| "parse_rows J dbValues ((key, text) # rows) =
     (case J text of
        Inl e \<Rightarrow> Inl e
      | Inr v \<Rightarrow> parse_rows J (AList.update key v dbValues) rows)"

fun write_entries :: "(string \<times> jsval) list \<Rightarrow> (storage \<times> world, unit) eff" where
  "write_entries [] s = (Inr (), s)"
| "write_entries ((key, v) # rest) s =
     (case Storage_writeSqlite key v s of
        (Inl e, s') \<Rightarrow> (Inl e, s')
      | (Inr _, s') \<Rightarrow> write_entries rest s')"

definition Storage_readSqlite :: "json_parse \<Rightarrow> (storage \<times> world, unit) eff" where
  "Storage_readSqlite J s =
     try_catch
       (seq (on_fs (sqlite_all (s_path (fst s))))
       (\<lambda>rows. seq (of_sum (parse_rows J [] rows))
       (\<lambda>dbValues. seq (set_storage_values (spread (s_values (fst s)) dbValues))
       (\<lambda>_. if rows = [] then (\<lambda>s'. write_entries (s_values (fst s')) s') else ret ()))))
       (\<lambda>e. emit (FailedReadSqlite (s_path (fst s)))) s"

text \<open>\<open>initialize\<close>, lines 327 to 362.\<close>

definition Storage_initialize :: "json_parse \<Rightarrow> (storage \<times> world, unit) eff" where
  "Storage_initialize J s =
     seq (case s_type (fst s) of
            Json \<Rightarrow>
              seq (on_fs (existsSync (s_path (fst s))))
              (\<lambda>ex. if \<not> ex then Storage_writeJson else Storage_readJson J)
          | Sqlite \<Rightarrow>
              seq (on_fs (sqlite_open (s_path (fst s))))
              (\<lambda>_. seq (on_fs (sqlite_create_table (s_path (fst s))))
              (\<lambda>_. seq (on_fs (sqlite_prepare (s_path (fst s))))
              (\<lambda>_. Storage_readSqlite J))))
     (\<lambda>_. debug_storage (ParsedStorage (s_path (fst s)))) s"

text \<open>
  The constructor, lines 257 to 296, under its two typed signatures: the defaults are
  always passed, and the name of the world is read for the domain \<open>World\<close> only, where
  a caller may still pass none or the empty string.
\<close>

definition backend_of :: "path \<Rightarrow> error + backend" where
  "backend_of p =
     (if extname p = ''.json'' then Inr Json
      else if extname p = ''.sqlite'' then Inr Sqlite
      else Inl InvalidExtension)"

definition Storage_new ::
    "json_parse \<Rightarrow> StorageType \<Rightarrow> string \<Rightarrow> string option \<Rightarrow> (string \<times> jsval) list
      \<Rightarrow> (world, storage) eff" where
  "Storage_new J type path world values w =
     (case resolvePath (cwd w) type path world of
        Inl e \<Rightarrow> (Inl e, w)
      | Inr p \<Rightarrow>
          (case backend_of p of
             Inl e \<Rightarrow> (Inl e, w)
           | Inr t \<Rightarrow>
               (case seq (seq (on_fs (existsSync (butlast p)))
                            (\<lambda>ex. if \<not> ex then on_fs (mkdirSync (butlast p)) else ret ()))
                         (\<lambda>_. Storage_initialize J)
                         (\<lparr>s_path = p, s_type = t, s_values = values\<rparr>, w) of
                  (Inl e, obj, w') \<Rightarrow> (Inl e, w')
                | (Inr _, obj, w') \<Rightarrow> (Inr obj, w'))))"

text \<open>\<open>getValue\<close> and \<open>setValue\<close>, lines 368 to 386.\<close>

definition Storage_getValue :: "storage \<Rightarrow> string \<Rightarrow> jsval option" where
  "Storage_getValue obj key = map_of (s_values obj) key"

definition Storage_setValue :: "string \<Rightarrow> jsval \<Rightarrow> (storage \<times> world, unit) eff" where
  "Storage_setValue key v s =
     seq (set_storage_values (AList.update key v (s_values (fst s))))
     (\<lambda>_. case s_type (fst s) of
             Json \<Rightarrow> Storage_writeJson
           | Sqlite \<Rightarrow> Storage_writeSqlite key v) s"

section \<open>Notions used by the statements\<close>

text \<open>
  \<open>dirs_creatable f [] d\<close>: no proper part of the way to the directory \<open>d\<close> is
  anything but a directory, so \<open>d\<close> is there or can be made. \<open>made_dirs\<close> is the file
  system after making it.
\<close>

fun dirs_creatable :: "filesystem \<Rightarrow> path \<Rightarrow> string list \<Rightarrow> bool" where
  "dirs_creatable f acc [] = True"
| "dirs_creatable f acc (s # ss) =
     ((f (acc @ [s]) = None \<or> f (acc @ [s]) = Some Dir) \<and> dirs_creatable f (acc @ [s]) ss)"

fun made_dirs :: "filesystem \<Rightarrow> path \<Rightarrow> string list \<Rightarrow> filesystem" where
  "made_dirs f acc [] = f"
| "made_dirs f acc (s # ss) = made_dirs (f(acc @ [s] \<mapsto> Dir)) (acc @ [s]) ss"

text \<open>
  The calls between \<open>setValue\<close> and \<open>addValue\<close>: \<open>delegate obj c\<close> is the call that
  \<open>c\<close> hands over to, by the guards of lines 150 to 156 and 178 to 180, when it does;
  \<open>run_direct\<close> is a method below its guard.
\<close>

datatype method_call = CallSetValue string jsval | CallAddValue string jsval "string option"

fun delegate :: "props \<Rightarrow> method_call \<Rightarrow> method_call option" where
  "delegate obj (CallSetValue key v) =
     (case p_values obj of
        None \<Rightarrow> None
      | Some vs \<Rightarrow> if key \<notin> set (map fst vs) then Some (CallAddValue key v None) else None)"
| "delegate obj (CallAddValue key v message) =
     (case p_values obj of
        None \<Rightarrow> None
      | Some vs \<Rightarrow> if key \<in> set (map fst vs) then Some (CallSetValue key v) else None)"

fun run_call :: "yaml_parse \<Rightarrow> method_call \<Rightarrow> (props \<times> world, unit) eff" where
  "run_call P (CallSetValue key v) = Properties_setValue P key v"
| "run_call P (CallAddValue key v message) = Properties_addValue P key v message"

fun run_direct :: "yaml_parse \<Rightarrow> method_call \<Rightarrow> (props \<times> world, unit) eff" where
  "run_direct P (CallSetValue key v) = setValue_direct P key v"
| "run_direct P (CallAddValue key v message) = addValue_direct P key v message"

text \<open>A host to evaluate on: an empty disk, the plugin of \<open>src/index.ts\<close>, a template.\<close>

definition world0 :: world where
  "world0 = \<lparr>fs = Map.empty, cwd = [''srv''], diagnostics = [], propertiesDebug = False,
              storageDebug = False\<rparr>"

definition sconfig :: plugin where
  "sconfig = \<lparr>plugin_path = ''/srv/plugins/sconfig'', plugin_identifier = ''serenity-config''\<rparr>"

definition example_template :: string where
  "example_template = ''debug: false\<newline>#enable logs\<newline>port: 8080''"

definition example_path :: path where
  "example_path = [''srv'', ''plugins'', ''serenity-config'', ''properties.yaml'']"

definition world_corrupt :: world where
  "world_corrupt = world0\<lparr>fs := [[''srv''] \<mapsto> Dir, [''srv'', ''plugins''] \<mapsto> Dir,
       [''srv'', ''plugins'', ''serenity-config''] \<mapsto> Dir,
       example_path \<mapsto> File ''{ debug'']\<rparr>"

text \<open>
  \<open>JSON.parse\<close> on the scalars: the three literals and the integers of at most fifteen
  digits. A text of letters only that is none of the literals is no JSON text; any other
  text is answered with \<open>Unsupported\<close>, and no result below rests on such an answer.
\<close>

definition json_scalars :: json_parse where
  "json_scalars t =
     (if t = ''null'' then Inr VNull
      else if t = ''true'' then Inr (VBool True)
      else if t = ''false'' then Inr (VBool False)
      else (case resolve_int t of
              Some i \<Rightarrow> Inr (VNum i)
            | None \<Rightarrow> if t \<noteq> [] \<and> list_all is_letter t then Inl JsonSyntaxError else Inl Unsupported))"

text \<open>
  The persisted data as a load deserialises them: the own properties of the document of
  the flat file, or the rows of the table with their values parsed, and none where there
  is no file of the kind, or the file, or one row, does not deserialise.
\<close>

definition persisted :: "json_parse \<Rightarrow> backend \<Rightarrow> filesystem \<Rightarrow> path \<Rightarrow> (string \<times> jsval) list option" where
  "persisted J t f p =
     (case t of
        Json \<Rightarrow>
          (case f p of
             Some (File c) \<Rightarrow> (case J c of Inr data \<Rightarrow> Some (own_props data) | Inl e \<Rightarrow> None)
           | _ \<Rightarrow> None)
      | Sqlite \<Rightarrow>
          (case f p of
             Some (Database d) \<Rightarrow>
               (case db_table d of
                  Some rows \<Rightarrow> (case parse_rows J [] rows of Inr dbValues \<Rightarrow> Some dbValues | Inl e \<Rightarrow> None)
                | None \<Rightarrow> None)
           | _ \<Rightarrow> None))"

text \<open>
  The configuration errors of the specification: the domain is none of the three, the
  domain is World and no name of a world is given, or the extension of the resolved path
  is neither \<open>.json\<close> nor \<open>.sqlite\<close>; and the three errors the constructor throws
  for them.
\<close>

definition bad_extension :: "path \<Rightarrow> bool" where
  "bad_extension p = (extname p \<noteq> ''.json'' \<and> extname p \<noteq> ''.sqlite'')"

definition configuration_error_case :: "path \<Rightarrow> StorageType \<Rightarrow> string \<Rightarrow> string option \<Rightarrow> bool" where
  "configuration_error_case dir type path world =
     (type = OtherType \<or> (type = World \<and> no_world world)
      \<or> (case resolvePath dir type path world of Inr p \<Rightarrow> bad_extension p | Inl e \<Rightarrow> False))"

definition configuration_error :: "error \<Rightarrow> bool" where
  "configuration_error e = (e = InvalidExtension \<or> e = InvalidWorldName \<or> e = InvalidStorageType)"

text \<open>
  The errors that come from outside the store: those of the calls of \<open>node:fs\<close> and
  those of the database engine.
\<close>

definition file_system_error :: "error \<Rightarrow> bool" where
  "file_system_error e = (e = ENOENT \<or> e = EISDIR \<or> e = ENOTDIR)"

definition engine_error :: "error \<Rightarrow> bool" where
  "engine_error e =
     (e = SqliteCantOpen \<or> e = SqliteNotADatabase \<or> e = SqliteReadonly \<or> e = SqliteMisuse)"

text \<open>Stores to evaluate on.\<close>

definition players_path :: path where
  "players_path = [''srv'', ''playerdata'', ''players.sqlite'']"

definition players_json_path :: path where
  "players_json_path = [''srv'', ''playerdata'', ''players.json'']"

definition example_defaults :: "(string \<times> jsval) list" where
  "example_defaults = [(''example'', VBool False)]"

definition storage_world :: "path \<Rightarrow> node \<Rightarrow> world" where
  "storage_world p n = world0\<lparr>fs := [[''srv''] \<mapsto> Dir, [''srv'', ''playerdata''] \<mapsto> Dir, p \<mapsto> n]\<rparr>"

definition good_db :: sqlite_db where
  "good_db = \<lparr>db_table = Some [(''example'', ''true'')], db_readonly = False\<rparr>"

definition broken_db :: sqlite_db where
  "broken_db = \<lparr>db_table = Some [(''example'', ''true''), (''broken'', ''oops'')], db_readonly = False\<rparr>"

definition readonly_db :: sqlite_db where
  "readonly_db = \<lparr>db_table = Some [(''example'', ''false'')], db_readonly = True\<rparr>"

definition players_store :: storage where
  "players_store = \<lparr>s_path = players_path, s_type = Sqlite, s_values = example_defaults\<rparr>"

text \<open>
  The values and comments that the fragment reads back as they were printed: the plain
  values, not the strings that need their quotes. The entries of a document of the
  fragment have distinct keys of the fragment.
\<close>

fun plain_value :: "jsval \<Rightarrow> bool" where
  "plain_value VNull = True"
| "plain_value (VBool b) = True"
| "plain_value (VNum i) = valid_number i"
| "plain_value (VStr t) = valid_string t"
| "plain_value _ = False"

definition comment_ok :: "string \<Rightarrow> bool" where
  "comment_ok c = (c = [] \<or> (hd c = CHR ''#'' \<and> list_all printable c))"

definition good_keys :: "(string \<times> jsval) list \<Rightarrow> bool" where
  "good_keys es = (distinct (map fst es) \<and> (\<forall>kv \<in> set es. valid_key (fst kv)))"

text \<open>
  \<open>store_ok obj w\<close>: the file of the store is on the disk, in a directory, and holds
  the text of the store. \<open>written obj w t\<close> is the world after writing \<open>t\<close> to it.
\<close>

definition store_ok :: "props \<Rightarrow> world \<Rightarrow> bool" where
  "store_ok obj w =
     (p_path obj \<noteq> [] \<and> is_dir (fs w) (butlast (p_path obj))
      \<and> dirs_creatable (fs w) [] (butlast (p_path obj))
      \<and> fs w (p_path obj) = Some (File (p_raw obj)))"

definition written :: "props \<Rightarrow> world \<Rightarrow> string \<Rightarrow> world" where
  "written obj w t = w\<lparr>fs := (fs w)(p_path obj \<mapsto> File t)\<rparr>"

text \<open>
  The defaults of the template under the keys that the live mapping \<open>m\<close> lacks, in the
  order of the template, and the text that the calls of \<open>addValue\<close> in the loop of the
  constructor append for them.
\<close>

definition missing_defaults :: "(string \<times> jsval) list \<Rightarrow> doc \<Rightarrow> (string \<times> jsval) list" where
  "missing_defaults m dt =
     filter (\<lambda>kv. fst kv \<notin> set (map fst m)) (case dt of None \<Rightarrow> [] | Some d \<Rightarrow> d)"

definition appended_text :: "string \<Rightarrow> (string \<times> jsval) list \<Rightarrow> string" where
  "appended_text template es =
     concat (map (\<lambda>kv. added_text (fst kv) (snd kv) (Some (template_comment template (fst kv)))) es)"

text \<open>A file written under an older template, and the template with one key more.\<close>

definition old_file :: string where
  "old_file = ''debug: false\<newline>#enable logs\<newline>port: 9090''"

definition new_template :: string where
  "new_template = ''debug: false\<newline>#enable logs\<newline>port: 8080\<newline>timeout: 30''"

definition world_old :: world where
  "world_old = world0\<lparr>fs := [[''srv''] \<mapsto> Dir, [''srv'', ''plugins''] \<mapsto> Dir,
       [''srv'', ''plugins'', ''serenity-config''] \<mapsto> Dir,
       example_path \<mapsto> File old_file]\<rparr>"

text \<open>
  A live file with a value of its own, and a template with one key more whose default is
  a string that needs its quotes.
\<close>

definition live_file :: string where
  "live_file = ''debug: true''"

definition quoted_template :: string where
  "quoted_template = ''debug: false\<newline>motd: '' @ [CHR 0x22] @ ''server: online'' @ [CHR 0x22]"

definition world_live :: world where
  "world_live = world0\<lparr>fs := [[''srv''] \<mapsto> Dir, [''srv'', ''plugins''] \<mapsto> Dir,
       [''srv'', ''plugins'', ''serenity-config''] \<mapsto> Dir,
       example_path \<mapsto> File live_file]\<rparr>"

section \<open>Lemmas\<close>

subsection \<open>Directories and reading\<close>

lemma dirs_creatable_upd:
  "dirs_creatable f acc ss \<Longrightarrow> dirs_creatable (f(q \<mapsto> Dir)) acc ss"
  by (induction ss arbitrary: acc) auto

lemma dirs_creatable_made:
  "dirs_creatable f acc ss \<Longrightarrow> dirs_creatable (made_dirs f a b) acc ss"
  by (induction b arbitrary: f a) (auto simp: dirs_creatable_upd)

lemma mkdirs_made:
  "dirs_creatable f acc ss \<Longrightarrow> mkdirs acc ss f = (Inr (), made_dirs f acc ss)"
proof (induction ss arbitrary: acc f)
  case Nil
  then show ?case by simp
next
  case (Cons s ss)
  show ?case
  proof (cases "f (acc @ [s])")
    case None
    have "dirs_creatable (f(acc @ [s] \<mapsto> Dir)) (acc @ [s]) ss"
      using Cons.prems by (simp add: dirs_creatable_upd)
    from Cons.IH[OF this]
    have "mkdirs (acc @ [s]) ss (f(acc @ [s] \<mapsto> Dir))
            = (Inr (), made_dirs (f(acc @ [s] \<mapsto> Dir)) (acc @ [s]) ss)" .
    moreover have "mkdirs acc (s # ss) f = mkdirs (acc @ [s]) ss (f(acc @ [s] \<mapsto> Dir))"
      using None by simp
    moreover have "made_dirs f acc (s # ss) = made_dirs (f(acc @ [s] \<mapsto> Dir)) (acc @ [s]) ss"
      by simp
    ultimately show ?thesis by metis
  next
    case (Some n)
    with Cons.prems have n: "n = Dir" by simp
    with Some have "f(acc @ [s] \<mapsto> Dir) = f" by (auto simp: fun_upd_idem)
    moreover have "dirs_creatable f (acc @ [s]) ss" using Cons.prems by simp
    from Cons.IH[OF this] have "mkdirs (acc @ [s]) ss f = (Inr (), made_dirs f (acc @ [s]) ss)" .
    moreover have "mkdirs acc (s # ss) f = mkdirs (acc @ [s]) ss f"
      using Some n by simp
    moreover have "made_dirs f acc (s # ss) = made_dirs (f(acc @ [s] \<mapsto> Dir)) (acc @ [s]) ss"
      by simp
    ultimately show ?thesis by metis
  qed
qed

lemma made_dirs_longer:
  "length acc + length ss < length q \<Longrightarrow> made_dirs f acc ss q = f q"
  by (induction ss arbitrary: acc f) auto

lemma made_dirs_target:
  "ss \<noteq> [] \<Longrightarrow> made_dirs f acc ss (acc @ ss) = Some Dir"
proof (induction ss arbitrary: acc f)
  case Nil
  then show ?case by simp
next
  case (Cons s ss)
  show ?case
  proof (cases ss)
    case Nil
    then show ?thesis by simp
  next
    case (Cons t ts)
    then have "made_dirs (f(acc @ [s] \<mapsto> Dir)) (acc @ [s]) ss ((acc @ [s]) @ ss) = Some Dir"
      using Cons.IH by blast
    then show ?thesis by simp
  qed
qed

lemma dirs_creatable_longer:
  "length acc + length ss < length q \<Longrightarrow> dirs_creatable (f(q := v)) acc ss = dirs_creatable f acc ss"
  by (induction ss arbitrary: acc) auto

lemma mkdirSync_ok:
  assumes "dirs_creatable f [] folder"
  shows "\<exists>g. mkdirSync folder f = (Inr (), g) \<and> is_dir g folder \<and> dirs_creatable g [] folder
           \<and> (\<forall>x. g (folder @ [x]) = f (folder @ [x]))"
proof -
  let ?g = "made_dirs f [] folder"
  have 1: "mkdirSync folder f = (Inr (), ?g)"
    using assms by (simp add: mkdirSync_def mkdirs_made)
  have 2: "is_dir ?g folder"
    using made_dirs_target[of folder f "[]"] by (cases "folder = []") (auto simp: is_dir_def)
  have 3: "dirs_creatable ?g [] folder"
    using assms by (rule dirs_creatable_made)
  have 4: "\<forall>x. ?g (folder @ [x]) = f (folder @ [x])"
    by (simp add: made_dirs_longer)
  from 1 2 3 4 show ?thesis by blast
qed

lemmas eff_defs = seq_def ret_def try_catch_def on_fs_def emit_def of_sum_def
  set_raw_def set_values_def debug_properties_def

lemma read_fresh:
  assumes "fs w (p_path obj) = None" "p_path obj \<noteq> []"
      "dirs_creatable (fs w) [] (butlast (p_path obj))"
  shows "\<exists>g. Properties_read P (obj, w) =
           (P (p_template obj), obj\<lparr>p_raw := p_template obj\<rparr>,
            w\<lparr>fs := g((p_path obj) \<mapsto> File (p_template obj)),
              diagnostics := diagnostics w @ (if propertiesDebug w then [CreatedProperties (p_path obj)] else [])\<rparr>)
          \<and> dirs_creatable (g((p_path obj) \<mapsto> File (p_template obj))) [] (butlast (p_path obj))
          \<and> is_dir (g((p_path obj) \<mapsto> File (p_template obj))) (butlast (p_path obj))"
proof -
  let ?p = "p_path obj" and ?d = "butlast (p_path obj)"
  have pd: "?p = ?d @ [last ?p]" using assms(2) by simp
  obtain f1 where f1: "(if \<not> (?d = [] \<or> fs w ?d \<noteq> None) then mkdirSync ?d (fs w) else (Inr (), fs w)) = (Inr (), f1)"
     "dirs_creatable f1 [] ?d" "f1 ?p = None"
  proof (cases "?d = [] \<or> fs w ?d \<noteq> None")
    case True
    then show ?thesis using that[of "fs w"] assms by simp
  next
    case False
    from mkdirSync_ok[OF assms(3)] obtain g where
      "mkdirSync ?d (fs w) = (Inr (), g)" "dirs_creatable g [] ?d" "\<forall>x. g (?d @ [x]) = fs w (?d @ [x])"
      by blast
    then show ?thesis using that[of g] False assms(1) pd by metis
  qed
  from mkdirSync_ok[OF f1(2)] obtain g where
    g: "mkdirSync ?d f1 = (Inr (), g)" "is_dir g ?d" "dirs_creatable g [] ?d" "\<forall>x. g (?d @ [x]) = f1 (?d @ [x])"
    by blast
  have gp: "g ?p = None" using g(4) f1(3) pd by metis
  have nd: "\<not> is_dir g ?p" using gp assms(2) by (simp add: is_dir_def)
  have w: "writeFileSync ?p (p_template obj) g = (Inr (), g(?p \<mapsto> File (p_template obj)))"
    using nd g(2) by (simp add: writeFileSync_def)
  have r: "readFileSync ?p (g(?p \<mapsto> File (p_template obj))) = (Inr (p_template obj), g(?p \<mapsto> File (p_template obj)))"
    by (simp add: readFileSync_def)
  have cw: "dirs_creatable (g(?p \<mapsto> File (p_template obj))) [] ?d"
    using g(3) assms(2) by (simp add: dirs_creatable_longer)
  have "Properties_read P (obj, w) =
           (P (p_template obj), obj\<lparr>p_raw := p_template obj\<rparr>,
            w\<lparr>fs := g(?p \<mapsto> File (p_template obj)),
              diagnostics := diagnostics w @ (if propertiesDebug w then [CreatedProperties ?p] else [])\<rparr>)"
    using f1(1) f1(3) assms(2) g(1) w r
    by (auto simp add: Properties_read_def Let_def eff_defs existsSync_def split: if_splits)
  moreover have "is_dir (g(?p \<mapsto> File (p_template obj))) ?d"
    using g(2) pd by (metis append_self_conv fun_upd_apply is_dir_def not_Cons_self2)
  ultimately show ?thesis using cw by blast
qed

lemma dirs_creatable_target:
  "dirs_creatable f acc ss \<Longrightarrow> ss \<noteq> [] \<Longrightarrow> f (acc @ ss) = None \<or> f (acc @ ss) = Some Dir"
proof (induction ss arbitrary: acc)
  case Nil
  then show ?case by simp
next
  case (Cons s ss)
  show ?case
  proof (cases "ss = []")
    case True
    then show ?thesis using Cons.prems by simp
  next
    case False
    then have "f ((acc @ [s]) @ ss) = None \<or> f ((acc @ [s]) @ ss) = Some Dir"
      using Cons.IH[of "acc @ [s]"] Cons.prems by simp
    then show ?thesis by simp
  qed
qed

lemma read_existing:
  assumes "fs w (p_path obj) = Some (File c)" "p_path obj \<noteq> []"
      "dirs_creatable (fs w) [] (butlast (p_path obj))"
  shows "\<exists>g. Properties_read P (obj, w) = (P c, obj\<lparr>p_raw := c\<rparr>, w\<lparr>fs := g\<rparr>)
          \<and> g (p_path obj) = Some (File c) \<and> dirs_creatable g [] (butlast (p_path obj))
          \<and> is_dir g (butlast (p_path obj))"
proof -
  let ?p = "p_path obj" and ?d = "butlast (p_path obj)"
  have pd: "?p = ?d @ [last ?p]" using assms(2) by simp
  obtain f1 where f1: "(if \<not> (?d = [] \<or> fs w ?d \<noteq> None) then mkdirSync ?d (fs w) else (Inr (), fs w)) = (Inr (), f1)"
     "dirs_creatable f1 [] ?d" "f1 ?p = Some (File c)" "is_dir f1 ?d"
  proof (cases "?d = [] \<or> fs w ?d \<noteq> None")
    case True
    have "is_dir (fs w) ?d"
    proof (cases "?d = []")
      case True
      then show ?thesis by (simp add: is_dir_def)
    next
      case False
      then have "fs w ([] @ ?d) = None \<or> fs w ([] @ ?d) = Some Dir"
        using assms(3) by (rule dirs_creatable_target[rotated])
      then show ?thesis using True False by (auto simp: is_dir_def)
    qed
    moreover have "(if \<not> (?d = [] \<or> fs w ?d \<noteq> None) then mkdirSync ?d (fs w) else (Inr (), fs w))
                     = (Inr (), fs w)"
      using True by simp
    ultimately show ?thesis using that[of "fs w"] assms(1,3) by blast
  next
    case False
    from mkdirSync_ok[OF assms(3)] obtain g where
      "mkdirSync ?d (fs w) = (Inr (), g)" "dirs_creatable g [] ?d" "\<forall>x. g (?d @ [x]) = fs w (?d @ [x])"
      "is_dir g ?d"
      by blast
    then show ?thesis using that[of g] False assms(1) pd by metis
  qed
  have r: "readFileSync ?p f1 = (Inr c, f1)"
    using f1(3) by (simp add: readFileSync_def)
  have "Properties_read P (obj, w) = (P c, obj\<lparr>p_raw := c\<rparr>, w\<lparr>fs := f1\<rparr>)"
    using f1(1) f1(3) assms(2) r
    by (auto simp add: Properties_read_def Let_def eff_defs existsSync_def split: if_splits)
  then show ?thesis using f1 by blast
qed

lemma reconcile_all_present:
  "p_values (fst s) = Some vs \<Longrightarrow> set (map fst ds) \<subseteq> set (map fst vs) \<Longrightarrow> reconcile P ds s = (Inr (), s)"
proof (induction ds)
  case Nil
  then show ?case by simp
next
  case (Cons a ds)
  obtain k v where a: "a = (k, v)" by (cases a)
  have "k \<in> set (map fst vs)" using Cons.prems a by auto
  then show ?case using Cons a by simp
qed

lemmas yaml_eval = yaml_lines_def classify_def resolve_value_def double_quoted_def
  nested_entry_def resolve_scalar_def resolve_int_def valid_key_def
  valid_string_def valid_number_def trim_def is_letter_def is_digit_def printable_def
  reserved_words_def read_nat_def show_int_def show_nat.simps digit_char_def Let_def

lemma example_path_eq: "Properties_path (cwd world0) sconfig ''properties.yaml'' = example_path"
  by (simp add: Properties_path_def resolve_def resolve_step_def is_absolute_def
      world0_def sconfig_def example_path_def)

lemma example_template_parse:
  "yaml_lines example_template = Inr (Some [(''debug'', VBool False), (''port'', VNum 8080)])"
  by (simp add: example_template_def yaml_eval)

subsection \<open>Storage\<close>

lemmas storage_defs = Storage_setValue_def Storage_writeSqlite_def Storage_writeJson_def
  Storage_readJson_def Storage_readSqlite_def Storage_initialize_def set_storage_values_def
  debug_storage_def

lemma sqlite_upsert_fails_unchanged:
  "sqlite_upsert p key t f = (Inl e, f') \<Longrightarrow> f' = f"
  by (auto simp: sqlite_upsert_def split: option.splits node.splits if_splits)

lemma keys_spread: "fst ` set (spread a b) = fst ` set a \<union> fst ` set b"
  unfolding spread_def
  by (induction b arbitrary: a) (auto simp: dom_update)

lemma map_of_spread: "map_of (spread a b) = map_of a ++ map_of (rev b)"
  unfolding spread_def
proof (induction b arbitrary: a)
  case Nil
  then show ?case by simp
next
  case (Cons x b)
  show ?case
    by (cases x) (auto simp: Cons update_conv' map_add_def fun_eq_iff split: option.splits)
qed

lemma write_entries_values:
  "write_entries es s = (r, s') \<Longrightarrow> fst s' = fst s \<and> r = Inr ()"
proof (induction es arbitrary: s)
  case Nil
  then show ?case by simp
next
  case (Cons a es)
  obtain k v where a: "a = (k, v)" by (cases a)
  obtain r1 s1 where w: "Storage_writeSqlite k v s = (r1, s1)" by (cases "Storage_writeSqlite k v s")
  have 1: "r1 = Inr () \<and> fst s1 = fst s"
    using w by (auto simp: Storage_writeSqlite_def eff_defs split: prod.splits sum.splits)
  with Cons a w show ?case by auto
qed

lemma mkdirs_other:
  "mkdirs acc ss f = (r, f') \<Longrightarrow> length acc + length ss < length q \<Longrightarrow> f' q = f q"
  by (induction ss arbitrary: acc f) (auto split: option.splits node.splits)

lemma readJson_values:
  "Storage_readJson J (obj, w) = (r, obj', w') \<Longrightarrow>
     r = Inr () \<and> fs w' = fs w
     \<and> obj' = obj\<lparr>s_values := (case persisted J Json (fs w) (s_path obj) of
                    Some data \<Rightarrow> spread (s_values obj) data | None \<Rightarrow> s_values obj)\<rparr>"
  by (auto simp: Storage_readJson_def persisted_def eff_defs readFileSync_def
        set_storage_values_def debug_storage_def
      split: option.splits node.splits sum.splits if_splits)

lemma readSqlite_values:
  "Storage_readSqlite J (obj, w) = (r, obj', w') \<Longrightarrow>
     r = Inr ()
     \<and> obj' = obj\<lparr>s_values := (case persisted J Sqlite (fs w) (s_path obj) of
                    Some data \<Rightarrow> spread (s_values obj) data | None \<Rightarrow> s_values obj)\<rparr>"
proof -
  assume a: "Storage_readSqlite J (obj, w) = (r, obj', w')"
  have r: "r = Inr ()"
    using a by (auto simp: Storage_readSqlite_def try_catch_def emit_def split: prod.splits sum.splits)
  show ?thesis
  proof (cases "sqlite_all (s_path obj) (fs w)")
    case (Pair ra f1)
    show ?thesis
    proof (cases ra)
      case (Inl e)
      then have "persisted J Sqlite (fs w) (s_path obj) = None"
        using Pair by (auto simp: sqlite_all_def persisted_def split: option.splits node.splits)
      moreover have "obj' = obj"
        using a Pair Inl by (auto simp: Storage_readSqlite_def eff_defs)
      ultimately show ?thesis using r by simp
    next
      case (Inr rows)
      then have f1: "f1 = fs w" and tbl: "\<exists>d. fs w (s_path obj) = Some (Database d) \<and> db_table d = Some rows"
        using Pair by (auto simp: sqlite_all_def split: option.splits node.splits)
      show ?thesis
      proof (cases "parse_rows J [] rows")
        case (Inl e)
        then have "persisted J Sqlite (fs w) (s_path obj) = None"
          using tbl by (auto simp: persisted_def)
        moreover have "obj' = obj"
          using a Pair Inr Inl by (auto simp: Storage_readSqlite_def eff_defs)
        ultimately show ?thesis using r by simp
      next
        case (Inr dbValues)
        then have p: "persisted J Sqlite (fs w) (s_path obj) = Some dbValues"
          using tbl by (auto simp: persisted_def)
        let ?obj1 = "obj\<lparr>s_values := spread (s_values obj) dbValues\<rparr>"
        have "obj' = ?obj1"
        proof (cases "rows = []")
          case True
          obtain r2 s2 where w2: "write_entries (s_values ?obj1) (?obj1, w\<lparr>fs := f1\<rparr>) = (r2, s2)"
            by (cases "write_entries (s_values ?obj1) (?obj1, w\<lparr>fs := f1\<rparr>)")
          from write_entries_values[OF w2] have "fst s2 = ?obj1" "r2 = Inr ()" by simp_all
          then show ?thesis
            using a Pair \<open>ra = Inr rows\<close> Inr True w2
            by (auto simp: Storage_readSqlite_def eff_defs set_storage_values_def)
        next
          case False
          then show ?thesis
            using a Pair \<open>ra = Inr rows\<close> Inr
            by (auto simp: Storage_readSqlite_def eff_defs set_storage_values_def)
        qed
        then show ?thesis using p r by simp
      qed
    qed
  qed
qed

lemma sqlite_setup_persisted:
  "sqlite_open p f = (Inr (), f1) \<Longrightarrow> sqlite_create_table p f1 = (Inr (), f2) \<Longrightarrow>
     (case persisted J Sqlite f2 p of Some data \<Rightarrow> spread vs data | None \<Rightarrow> vs)
       = (case persisted J Sqlite f p of Some data \<Rightarrow> spread vs data | None \<Rightarrow> vs)"
  by (auto simp: sqlite_open_def sqlite_create_table_def persisted_def spread_def
      split: option.splits node.splits if_splits sum.splits)

lemma sqlite_prepare_same: "sqlite_prepare p f = (r, f') \<Longrightarrow> f' = f"
  by (auto simp: sqlite_prepare_def sqlite_all_def split: option.splits node.splits prod.splits sum.splits)

lemma initialize_values:
  assumes "Storage_initialize J (obj, w) = (Inr (), obj', w')"
  shows "obj' = obj\<lparr>s_values := (case persisted J (s_type obj) (fs w) (s_path obj) of
                    Some data \<Rightarrow> spread (s_values obj) data | None \<Rightarrow> s_values obj)\<rparr>"
proof (cases "s_type obj")
  case Json
  show ?thesis
  proof (cases "s_path obj = [] \<or> fs w (s_path obj) \<noteq> None")
    case True
    obtain r1 o1 w1 where rj: "Storage_readJson J (obj, w) = (r1, o1, w1)"
      by (cases "Storage_readJson J (obj, w)")
    from readJson_values[OF rj] have "r1 = Inr ()" and o1: "o1 = obj\<lparr>s_values := (case persisted J Json (fs w) (s_path obj) of
                    Some data \<Rightarrow> spread (s_values obj) data | None \<Rightarrow> s_values obj)\<rparr>"
      by simp_all
    then have "obj' = o1"
      using assms Json True rj
      by (auto simp: Storage_initialize_def eff_defs existsSync_def debug_storage_def split: if_splits)
    then show ?thesis using o1 Json by simp
  next
    case False
    then have "persisted J Json (fs w) (s_path obj) = None"
      by (simp add: persisted_def)
    moreover have "obj' = obj"
      using assms Json False
      by (auto simp: Storage_initialize_def eff_defs existsSync_def debug_storage_def
            Storage_writeJson_def split: if_splits prod.splits sum.splits)
    ultimately show ?thesis using Json by simp
  qed
next
  case Sqlite
  let ?p = "s_path obj"
  obtain r1 f1 where o: "sqlite_open ?p (fs w) = (r1, f1)" by (cases "sqlite_open ?p (fs w)")
  obtain r2 f2 where c: "sqlite_create_table ?p f1 = (r2, f2)" by (cases "sqlite_create_table ?p f1")
  obtain r3 f3 where pr: "sqlite_prepare ?p f2 = (r3, f3)" by (cases "sqlite_prepare ?p f2")
  have f3: "f3 = f2" using pr by (rule sqlite_prepare_same)
  obtain r4 o4 w4 where rs: "Storage_readSqlite J (obj, w\<lparr>fs := f2\<rparr>) = (r4, o4, w4)"
    by (cases "Storage_readSqlite J (obj, w\<lparr>fs := f2\<rparr>)")
  have ok: "r1 = Inr () \<and> r2 = Inr () \<and> r3 = Inr () \<and> obj' = o4"
    using assms Sqlite o c pr f3 rs
    by (auto simp: Storage_initialize_def eff_defs debug_storage_def
          split: sum.splits if_splits)
  from readSqlite_values[OF rs]
  have "o4 = obj\<lparr>s_values := (case persisted J Sqlite f2 ?p of
                    Some data \<Rightarrow> spread (s_values obj) data | None \<Rightarrow> s_values obj)\<rparr>"
    by simp
  moreover have "(case persisted J Sqlite f2 ?p of
                    Some data \<Rightarrow> spread (s_values obj) data | None \<Rightarrow> s_values obj)
               = (case persisted J Sqlite (fs w) ?p of
                    Some data \<Rightarrow> spread (s_values obj) data | None \<Rightarrow> s_values obj)"
    using sqlite_setup_persisted[of ?p "fs w" f1 f2] o c ok by simp
  ultimately show ?thesis using ok Sqlite by simp
qed

lemma Storage_new_success:
  assumes "Storage_new J type path world defaults w = (Inr obj, w')"
  shows "resolvePath (cwd w) type path world = Inr (s_path obj) \<and> backend_of (s_path obj) = Inr (s_type obj)
         \<and> s_values obj = (case persisted J (s_type obj) (fs w) (s_path obj) of
                    Some data \<Rightarrow> spread defaults data | None \<Rightarrow> defaults)"
proof -
  obtain p where p: "resolvePath (cwd w) type path world = Inr p"
    using assms by (cases "resolvePath (cwd w) type path world") (auto simp: Storage_new_def)
  obtain t where t: "backend_of p = Inr t"
    using assms p by (cases "backend_of p") (auto simp: Storage_new_def)
  have pne: "p \<noteq> []" using t by (auto simp: backend_of_def extname_def split: if_splits)
  let ?o = "\<lparr>s_path = p, s_type = t, s_values = defaults\<rparr>"
  obtain r1 f1 where m: "(if \<not> (butlast p = [] \<or> fs w (butlast p) \<noteq> None) then mkdirSync (butlast p) (fs w) else (Inr (), fs w)) = (r1, f1)"
    by (cases "(if \<not> (butlast p = [] \<or> fs w (butlast p) \<noteq> None) then mkdirSync (butlast p) (fs w) else (Inr (), fs w))")
  have f1p: "f1 p = fs w p"
    using m pne mkdirs_other[of "[]" "butlast p" "fs w" r1 f1 p]
    by (auto simp: mkdirSync_def split: if_splits)
  have init: "r1 = Inr () \<and> Storage_initialize J (?o, w\<lparr>fs := f1\<rparr>) = (Inr (), obj, w')"
    using assms p t m
    by (auto simp: Storage_new_def eff_defs existsSync_def split: if_splits prod.splits sum.splits)
  from initialize_values[of J ?o "w\<lparr>fs := f1\<rparr>" obj w'] init
  have "obj = ?o\<lparr>s_values := (case persisted J t f1 p of
                    Some data \<Rightarrow> spread defaults data | None \<Rightarrow> defaults)\<rparr>"
    by (simp split: option.splits)
  moreover have "persisted J t f1 p = persisted J t (fs w) p"
    unfolding persisted_def f1p ..
  ultimately show ?thesis using p t by simp
qed

lemma mkdirs_error: "mkdirs acc ss f = (Inl e, f') \<Longrightarrow> e = ENOTDIR"
  by (induction ss arbitrary: acc f) (auto split: option.splits node.splits)

lemma outside_error_not_configuration:
  "file_system_error e \<or> engine_error e \<Longrightarrow> \<not> configuration_error e"
  by (auto simp: file_system_error_def engine_error_def configuration_error_def)

lemma initialize_error:
  assumes "Storage_initialize J (obj, w) = (Inl e, s')"
  shows "file_system_error e \<or> engine_error e"
proof (cases "s_type obj")
  case Json
  show ?thesis
  proof (cases "s_path obj = [] \<or> fs w (s_path obj) \<noteq> None")
    case True
    obtain r1 o1 w1 where rj: "Storage_readJson J (obj, w) = (r1, o1, w1)"
      by (cases "Storage_readJson J (obj, w)")
    from readJson_values[OF rj] have "r1 = Inr ()" by simp
    then show ?thesis
      using assms Json True rj
      by (auto simp: Storage_initialize_def eff_defs existsSync_def debug_storage_def split: if_splits)
  next
    case False
    then show ?thesis
      using assms Json
      by (auto simp: Storage_initialize_def eff_defs existsSync_def debug_storage_def
            Storage_writeJson_def writeFileSync_def file_system_error_def
          split: if_splits prod.splits sum.splits)
  qed
next
  case Sqlite
  let ?p = "s_path obj"
  obtain r1 f1 where o: "sqlite_open ?p (fs w) = (r1, f1)" by (cases "sqlite_open ?p (fs w)")
  obtain r2 f2 where c: "sqlite_create_table ?p f1 = (r2, f2)" by (cases "sqlite_create_table ?p f1")
  obtain r3 f3 where pr: "sqlite_prepare ?p f2 = (r3, f3)" by (cases "sqlite_prepare ?p f2")
  obtain r4 o4 w4 where rs: "Storage_readSqlite J (obj, w\<lparr>fs := f3\<rparr>) = (r4, o4, w4)"
    by (cases "Storage_readSqlite J (obj, w\<lparr>fs := f3\<rparr>)")
  from readSqlite_values[OF rs] have r4: "r4 = Inr ()" by simp
  have e1: "r1 = Inl e \<Longrightarrow> engine_error e"
    using o by (auto simp: sqlite_open_def engine_error_def split: option.splits node.splits if_splits)
  have e2: "r2 = Inl e \<Longrightarrow> engine_error e"
    using c by (auto simp: sqlite_create_table_def engine_error_def split: option.splits node.splits if_splits)
  have e3: "r3 = Inl e \<Longrightarrow> engine_error e"
    using pr by (auto simp: sqlite_prepare_def sqlite_all_def engine_error_def
        split: option.splits node.splits if_splits prod.splits sum.splits)
  have "r1 = Inl e \<or> r2 = Inl e \<or> r3 = Inl e"
    using assms Sqlite o c pr rs r4
    by (auto simp: Storage_initialize_def eff_defs debug_storage_def split: sum.splits if_splits)
  then show ?thesis using e1 e2 e3 by blast
qed

lemma Storage_new_error:
  assumes "Storage_new J type path world defaults w = (Inl e, w')"
  shows "if configuration_error_case (cwd w) type path world
         then configuration_error e \<and> w' = w else file_system_error e \<or> engine_error e"
proof (cases "resolvePath (cwd w) type path world")
  case (Inl e1)
  then have "configuration_error_case (cwd w) type path world \<and> configuration_error e1"
    by (auto simp: resolvePath_def configuration_error_case_def configuration_error_def
        split: StorageType.splits if_splits)
  then show ?thesis using assms Inl by (auto simp: Storage_new_def)
next
  case (Inr p)
  then have nt: "type \<noteq> OtherType \<and> \<not> (type = World \<and> no_world world)"
    by (auto simp: resolvePath_def split: StorageType.splits if_splits)
  show ?thesis
  proof (cases "backend_of p")
    case (Inl e1)
    then have "bad_extension p \<and> e1 = InvalidExtension"
      by (auto simp: backend_of_def bad_extension_def split: if_splits)
    then show ?thesis
      using assms Inr Inl by (auto simp: Storage_new_def configuration_error_case_def configuration_error_def)
  next
    case (Inr t)
    then have nb: "\<not> bad_extension p"
      by (auto simp: backend_of_def bad_extension_def split: if_splits)
    have nc: "\<not> configuration_error_case (cwd w) type path world"
      using nt nb \<open>resolvePath (cwd w) type path world = Inr p\<close>
      by (simp add: configuration_error_case_def)
    let ?o = "\<lparr>s_path = p, s_type = t, s_values = defaults\<rparr>"
    obtain r1 f1 where m: "(if \<not> (butlast p = [] \<or> fs w (butlast p) \<noteq> None) then mkdirSync (butlast p) (fs w) else (Inr (), fs w)) = (r1, f1)"
      by (cases "(if \<not> (butlast p = [] \<or> fs w (butlast p) \<noteq> None) then mkdirSync (butlast p) (fs w) else (Inr (), fs w))")
    have "r1 = Inl e \<or> (\<exists>s'. Storage_initialize J (?o, w\<lparr>fs := f1\<rparr>) = (Inl e, s'))"
      using assms \<open>resolvePath (cwd w) type path world = Inr p\<close> Inr m
      by (auto simp: Storage_new_def eff_defs existsSync_def split: if_splits prod.splits sum.splits)
    moreover have "r1 = Inl e \<Longrightarrow> e = ENOTDIR"
      using m mkdirs_error[of "[]" "butlast p" "fs w" e f1] by (auto simp: mkdirSync_def split: if_splits)
    moreover have "file_system_error ENOTDIR" by (simp add: file_system_error_def)
    ultimately have "file_system_error e \<or> engine_error e"
      using initialize_error by blast
    then show ?thesis using nc by simp
  qed
qed

lemma Storage_new_configuration_error:
  assumes "configuration_error_case (cwd w) type path world"
  shows "\<exists>e. Storage_new J type path world defaults w = (Inl e, w)"
proof (cases "resolvePath (cwd w) type path world")
  case (Inl e1)
  then show ?thesis by (simp add: Storage_new_def)
next
  case (Inr p)
  then have "bad_extension p"
    using assms by (auto simp: configuration_error_case_def resolvePath_def split: StorageType.splits if_splits)
  then show ?thesis using Inr by (simp add: Storage_new_def backend_of_def bad_extension_def)
qed

lemmas json_eval = json_scalars_def resolve_int_def valid_number_def is_letter_def read_nat_def
  show_int_def show_nat.simps digit_char_def Let_def

lemmas path_eval = resolvePath_def resolve_def resolve_step_def is_absolute_def extname_def
  ext_of_name_def backend_of_def no_world_def

lemma players_resolve: "resolvePath (cwd (storage_world p n)) Player ''players.sqlite'' None = Inr players_path"
  by (simp add: path_eval storage_world_def world0_def players_path_def)

lemma players_json_resolve: "resolvePath (cwd (storage_world p n)) Player ''players.json'' None = Inr players_json_path"
  by (simp add: path_eval storage_world_def world0_def players_json_path_def)

lemmas storage_eval = Storage_new_def Storage_initialize_def Storage_readSqlite_def
  Storage_readJson_def Storage_writeJson_def Storage_writeSqlite_def Storage_setValue_def
  set_storage_values_def debug_storage_def eff_defs existsSync_def readFileSync_def
  writeFileSync_def mkdirSync_def is_dir_def sqlite_open_def sqlite_create_table_def
  sqlite_prepare_def sqlite_all_def sqlite_upsert_def spread_def

lemma new_good_db:
  "Storage_new json_scalars Player ''players.sqlite'' None example_defaults
       (storage_world players_path (Database good_db))
     = (Inr \<lparr>s_path = players_path, s_type = Sqlite, s_values = [(''example'', VBool True)]\<rparr>,
        storage_world players_path (Database good_db))"
proof -
  have be: "backend_of players_path = Inr Sqlite"
    by (simp add: path_eval players_path_def)
  have j: "json_scalars ''true'' = Inr (VBool True)" by (simp add: json_scalars_def)
  show ?thesis
    by (simp add: Storage_new_def players_resolve be)
       (simp add: storage_eval storage_world_def world0_def players_path_def good_db_def
          example_defaults_def j)
qed

lemma new_broken_db:
  "Storage_new json_scalars Player ''players.sqlite'' None example_defaults
       (storage_world players_path (Database broken_db))
     = (Inr \<lparr>s_path = players_path, s_type = Sqlite, s_values = [(''example'', VBool False)]\<rparr>,
        (storage_world players_path (Database broken_db))
          \<lparr>diagnostics := [FailedReadSqlite players_path]\<rparr>)"
proof -
  have be: "backend_of players_path = Inr Sqlite"
    by (simp add: path_eval players_path_def)
  have j: "json_scalars ''true'' = Inr (VBool True)" by (simp add: json_scalars_def)
  have j2: "json_scalars ''oops'' = Inl JsonSyntaxError" by (simp add: json_eval)
  show ?thesis
    by (simp add: Storage_new_def players_resolve be)
       (simp add: storage_eval storage_world_def world0_def players_path_def broken_db_def
          example_defaults_def j j2)
qed

lemma persisted_good_db:
  "persisted json_scalars Sqlite (fs (storage_world players_path (Database good_db))) players_path
     = Some [(''example'', VBool True)]"
  by (simp add: persisted_def storage_world_def good_db_def json_scalars_def)

subsection \<open>The fragment of YAML\<close>

lemma digit_char_props:
  "d < 10 \<Longrightarrow> is_digit (digit_char d) \<and> (of_char (digit_char d) :: nat) = 48 + d"
proof -
  assume "d < 10"
  then have "d \<in> {0,1,2,3,4,5,6,7,8,9}" by auto
  then show ?thesis by (auto simp: digit_char_def is_digit_def)
qed

lemma show_nat_digits: "list_all is_digit (show_nat n) \<and> show_nat n \<noteq> []"
proof (induction n rule: show_nat.induct)
  case (1 n)
  show ?case
  proof (cases "n < 10")
    case True
    then show ?thesis using digit_char_props[of n] by (simp add: show_nat.simps[of n])
  next
    case False
    then show ?thesis
      using 1 digit_char_props[of "n mod 10"] by (simp add: show_nat.simps[of n])
  qed
qed

lemma read_nat_snoc: "read_nat (t @ [c]) = 10 * read_nat t + (of_char c - 48)"
  by (simp add: read_nat_def)

lemma read_show_nat: "read_nat (show_nat n) = n"
proof (induction n rule: show_nat.induct)
  case (1 n)
  show ?case
  proof (cases "n < 10")
    case True
    then show ?thesis
      using digit_char_props[of n] by (simp add: show_nat.simps[of n] read_nat_def)
  next
    case False
    then have "read_nat (show_nat n) = 10 * read_nat (show_nat (n div 10)) + (of_char (digit_char (n mod 10)) - 48)"
      by (simp add: show_nat.simps[of n] read_nat_snoc)
    also have "\<dots> = 10 * (n div 10) + n mod 10"
      using 1 False digit_char_props[of "n mod 10"] by simp
    finally show ?thesis by simp
  qed
qed

lemma resolve_int_show: "valid_number i \<Longrightarrow> resolve_int (show_int i) = Some i"
proof -
  assume v: "valid_number i"
  obtain c r where cr: "show_nat (nat \<bar>i\<bar>) = c # r" "is_digit c"
    using show_nat_digits[of "nat \<bar>i\<bar>"] by (cases "show_nat (nat \<bar>i\<bar>)") auto
  have nd: "c \<noteq> CHR ''-''" using cr(2) by (auto simp: is_digit_def)
  show ?thesis
  proof (cases "i < 0")
    case True
    then have s: "show_int i = CHR ''-'' # show_nat (nat (- i))" by (simp add: show_int_def)
    then show ?thesis using True v by (simp add: resolve_int_def read_show_nat Let_def)
  next
    case False
    then have s: "show_int i = c # r" using cr(1) by (simp add: show_int_def)
    have "read_nat (c # r) = nat i"
      using cr(1) False read_show_nat[of "nat \<bar>i\<bar>"] by simp
    then have "int (read_nat (c # r)) = i" using False by simp
    then show ?thesis
      using s v nd by (simp add: resolve_int_def Let_def)
  qed
qed

lemma show_int_head:
  "show_int i \<noteq> [] \<and> \<not> is_letter (hd (show_int i)) \<and> hd (show_int i) \<noteq> CHR '' ''
   \<and> last (show_int i) \<noteq> CHR '' '' \<and> list_all printable (show_int i)"
proof -
  have d: "is_digit c \<Longrightarrow> \<not> is_letter c \<and> c \<noteq> CHR '' '' \<and> printable c" for c
    by (auto simp: is_digit_def is_letter_def printable_def Let_def)
  have n: "show_nat n \<noteq> [] \<and> is_digit (hd (show_nat n)) \<and> is_digit (last (show_nat n))
           \<and> list_all printable (show_nat n)" for n
  proof -
    have a: "list_all is_digit (show_nat n)" "show_nat n \<noteq> []"
      using show_nat_digits[of n] by simp_all
    have "is_digit (hd (show_nat n))" using a by (cases "show_nat n") auto
    moreover have "is_digit (last (show_nat n))"
      using a by (cases "show_nat n" rule: rev_cases) auto
    moreover have "list_all printable (show_nat n)"
      using a(1) d by (auto simp: list_all_iff)
    ultimately show ?thesis using a(2) by simp
  qed
  show ?thesis
    using n[of "nat i"] n[of "nat (- i)"] d
    by (auto simp: show_int_def is_letter_def printable_def Let_def)
qed

lemma resolve_int_Some: "resolve_int t = Some i \<Longrightarrow> t = show_int i \<and> valid_number i"
  by (auto simp: resolve_int_def Let_def split: if_splits list.splits)

lemma resolve_scalar_plain: "resolve_scalar t = Some v \<Longrightarrow> plain_value v"
  by (auto simp: resolve_scalar_def split: if_splits dest: resolve_int_Some)

lemma letter_words:
  "is_letter (CHR ''n'')" "is_letter (CHR ''t'')" "is_letter (CHR ''f'')"
  by (simp_all add: is_letter_def)

lemma resolve_scalar_to_string: "plain_value v \<Longrightarrow> resolve_scalar (to_string v) = Some v"
proof (cases v)
  case VNull
  then show ?thesis by (simp add: resolve_scalar_def)
next
  case (VBool b)
  then show ?thesis by (simp add: resolve_scalar_def)
next
  case (VNum i)
  assume "plain_value v"
  then have v: "valid_number i" using VNum by simp
  have h: "show_int i \<noteq> []" "\<not> is_letter (hd (show_int i))" using show_int_head[of i] by simp_all
  then have "show_int i \<noteq> ''null''" "show_int i \<noteq> ''true''" "show_int i \<noteq> ''false''"
    using letter_words by (auto simp: is_letter_def)
  then show ?thesis
    using VNum v h by (simp add: resolve_scalar_def resolve_int_show)
next
  case (VStr t)
  assume "plain_value v"
  then have v: "valid_string t" using VStr by simp
  then have "t \<noteq> []" "is_letter (hd t)" "t \<noteq> ''null''" "t \<noteq> ''true''" "t \<noteq> ''false''"
    by (auto simp: valid_string_def reserved_words_def)
  then show ?thesis using VStr v by (simp add: resolve_scalar_def)
next
  case (VArr x5)
  assume "plain_value v"
  then show ?thesis using VArr by simp
next
  case (VObj x6)
  assume "plain_value v"
  then show ?thesis using VObj by simp
qed

lemma class_printable:
  "is_letter c \<or> is_digit c \<or> c = CHR ''_'' \<or> c = CHR ''-'' \<or> c = CHR '' '' \<or> c = CHR '':'' \<or> c = CHR ''#''
     \<Longrightarrow> printable c"
  by (auto simp: is_letter_def is_digit_def printable_def Let_def)

lemma to_string_plain:
  assumes "plain_value v"
  shows "to_string v \<noteq> [] \<and> hd (to_string v) \<noteq> CHR '' '' \<and> last (to_string v) \<noteq> CHR '' ''
         \<and> list_all printable (to_string v)"
proof (cases v)
  case VNull
  then show ?thesis by (simp add: printable_def)
next
  case (VBool b)
  then show ?thesis by (simp add: printable_def)
next
  case (VNum i)
  then show ?thesis using show_int_head[of i] by simp
next
  case (VStr t)
  then have v: "valid_string t" using assms by simp
  then have "t \<noteq> []" "is_letter (hd t)" "last t \<noteq> CHR '' ''"
    "list_all (\<lambda>c. is_letter c \<or> is_digit c \<or> c = CHR ''_'' \<or> c = CHR '' '') t"
    by (auto simp: valid_string_def)
  moreover have "hd t \<noteq> CHR '' ''" using \<open>is_letter (hd t)\<close> by (auto simp: is_letter_def)
  moreover have "list_all printable t"
    using calculation(4) class_printable by (auto simp: list_all_iff)
  ultimately show ?thesis using VStr by simp
next
  case (VArr x5)
  then show ?thesis using assms by simp
next
  case (VObj x6)
  then show ?thesis using assms by simp
qed

lemma trim_id:
  assumes "t \<noteq> []" "hd t \<noteq> CHR '' ''" "last t \<noteq> CHR '' ''"
  shows "trim (CHR '' '' # t) = t"
proof -
  have 1: "dropWhile (\<lambda>c. c = CHR '' '') (CHR '' '' # t) = t"
    using assms(1,2) by (cases t) auto
  have 2: "dropWhile (\<lambda>c. c = CHR '' '') (rev t) = rev t"
    using assms(1,3) by (cases t rule: rev_cases) auto
  show ?thesis by (simp add: trim_def 1 2 del: dropWhile.simps)
qed

lemma valid_key_chars:
  assumes "valid_key k"
  shows "k \<noteq> [] \<and> hd k \<noteq> CHR '' '' \<and> hd k \<noteq> CHR ''#'' \<and> CHR '':'' \<notin> set k \<and> CHR 10 \<notin> set k
         \<and> list_all printable k"
proof -
  have c: "is_letter c \<or> is_digit c \<or> c = CHR ''_'' \<or> c = CHR ''-''
        \<Longrightarrow> c \<noteq> CHR '':'' \<and> c \<noteq> CHR 10 \<and> printable c" for c
    by (auto simp: is_letter_def is_digit_def printable_def Let_def)
  have "k \<noteq> []" "is_letter (hd k) \<or> hd k = CHR ''_''"
    "\<forall>c \<in> set k. is_letter c \<or> is_digit c \<or> c = CHR ''_'' \<or> c = CHR ''-''"
    using assms by (auto simp: valid_key_def list_all_iff)
  moreover have "hd k \<noteq> CHR '' '' \<and> hd k \<noteq> CHR ''#''"
    using calculation(2) by (auto simp: is_letter_def)
  ultimately show ?thesis using c by (auto simp: list_all_iff)
qed

lemma classify_entry:
  assumes "valid_key k" "plain_value v"
  shows "classify (k @ '': '' @ to_string v) = Entry k v"
proof -
  let ?l = "k @ '': '' @ to_string v"
  note kc = valid_key_chars[OF assms(1)]
  note tp = to_string_plain[OF assms(2)]
  have hd: "hd ?l = hd k" using kc by simp
  have ns: "\<not> list_all (\<lambda>c. c = CHR '' '') ?l"
    using kc by (cases k) auto
  have allk: "\<forall>c \<in> set k. c \<noteq> CHR '':''" using kc by auto
  have tw: "takeWhile (\<lambda>c. c \<noteq> CHR '':'') ?l = k"
    using allk by (simp add: takeWhile_tail takeWhile_eq_all_conv[THEN iffD2])
  have dw: "dropWhile (\<lambda>c. c \<noteq> CHR '':'') ?l = '': '' @ to_string v"
    using allk by (simp add: dropWhile_append3 dropWhile_eq_Nil_conv[THEN iffD2])
  have tr: "trim (CHR '' '' # to_string v) = to_string v"
    using tp by (simp add: trim_id)
  show ?thesis
    unfolding classify_def resolve_value_def
    using ns hd kc tw dw tr assms resolve_scalar_to_string[OF assms(2)]
    by (simp add: Let_def del: dropWhile_append takeWhile_append)
qed

lemma classify_comment:
  assumes "list_all printable c"
  shows "classify (''# '' @ c) = Skip"
  using assms by (simp add: classify_def printable_def)

lemma classify_empty: "classify [] = Skip"
  by (simp add: classify_def)

lemma split_char_nonempty: "split_char c s \<noteq> []"
  by (induction s) (auto split: list.splits)

lemma split_char_none: "c \<notin> set s \<Longrightarrow> split_char c s = [s]"
  by (induction s) auto

lemma split_char_append: "split_char c (a @ c # b) = split_char c a @ split_char c b"
proof (induction a)
  case Nil
  then show ?case by simp
next
  case (Cons x a)
  then show ?case
    using split_char_nonempty[of c a] by (cases "split_char c a") auto
qed

lemma split_char_pieces:
  "x \<in> set (split_char c s) \<Longrightarrow> set x \<subseteq> set s \<and> c \<notin> set x"
proof (induction s arbitrary: x)
  case Nil
  then show ?case by simp
next
  case (Cons a s)
  show ?case
  proof (cases "a = c")
    case True
    then show ?thesis using Cons by auto
  next
    case False
    obtain l ls where l: "split_char c s = l # ls"
      using split_char_nonempty[of c s] by (cases "split_char c s") auto
    then have "x = a # l \<or> x \<in> set ls" using Cons.prems False by simp
    then show ?thesis
    proof
      assume "x = a # l"
      moreover have "set l \<subseteq> set s \<and> c \<notin> set l" using Cons.IH[of l] l by simp
      ultimately show ?thesis using False by auto
    next
      assume "x \<in> set ls"
      then have "set x \<subseteq> set s \<and> c \<notin> set x" using Cons.IH[of x] l by simp
      then show ?thesis by auto
    qed
  qed
qed

lemma split_char_covers: "set s \<subseteq> (\<Union>l \<in> set (split_char c s). set l) \<union> {c}"
proof (induction s)
  case Nil
  then show ?case by simp
next
  case (Cons a s)
  obtain l ls where l: "split_char c s = l # ls"
    using split_char_nonempty[of c s] by (cases "split_char c s") auto
  then show ?case using Cons by auto
qed

lemma split_str_nonempty: "split_str sep s \<noteq> [] \<or> (sep = [] \<and> s = [])"
  by (induction sep s rule: split_str.induct) (auto split: list.splits)

lemma split_str_pieces: "x \<in> set (split_str sep s) \<Longrightarrow> set x \<subseteq> set s"
proof (induction sep s arbitrary: x rule: split_str.induct)
  case (1 s)
  then show ?case by auto
next
  case (2 a sep)
  then show ?case by simp
next
  case (3 a sep y ys)
  show ?case
  proof (cases "starts_with (a # sep) (y # ys)")
    case True
    then have "x = [] \<or> x \<in> set (split_str (a # sep) (drop (length sep) ys))"
      using "3.prems" by simp
    then show ?thesis
    proof
      assume "x = []" then show ?thesis by simp
    next
      assume "x \<in> set (split_str (a # sep) (drop (length sep) ys))"
      then have "set x \<subseteq> set (drop (length sep) ys)" using "3.IH"(1)[OF True] by simp
      then show ?thesis using set_drop_subset[of "length sep" ys] by auto
    qed
  next
    case False
    show ?thesis
    proof (cases "split_str (a # sep) ys")
      case Nil
      then show ?thesis using "3.prems" False by auto
    next
      case (Cons l ls)
      then have "x = y # l \<or> x \<in> set ls" using "3.prems" False by (auto split: if_splits)
      then show ?thesis
      proof
        assume "x = y # l"
        moreover have "set l \<subseteq> set ys" using "3.IH"(2)[OF False, of l] Cons by simp
        ultimately show ?thesis by auto
      next
        assume "x \<in> set ls"
        then have "set x \<subseteq> set ys" using "3.IH"(2)[OF False, of x] Cons by simp
        then show ?thesis by auto
      qed
    qed
  qed
qed

lemma parse_lines_append:
  "parse_lines acc (xs @ ys) =
     (case parse_lines acc xs of Inl e \<Rightarrow> Inl e | Inr acc' \<Rightarrow> parse_lines acc' ys)"
  by (induction xs arbitrary: acc) (auto split: yaml_line.splits)

lemma yaml_lines_Some:
  "yaml_lines s = Inr (Some vs) \<longleftrightarrow> (parse_lines [] (split_char (CHR 10) s) = Inr vs \<and> vs \<noteq> [])"
  by (auto simp: yaml_lines_def split: sum.splits list.splits)

lemma added_text_lines:
  assumes "valid_key k" "plain_value v" "comment_ok c"
  shows "split_char (CHR 10) (raw @ added_text k v (Some c)) =
           split_char (CHR 10) raw @ [k @ '': '' @ to_string v]
             @ (if c = [] then [] else [''# '' @ c]) @ [[]]"
proof -
  have nk: "CHR 10 \<notin> set (k @ '': '' @ to_string v)"
    using valid_key_chars[OF assms(1)] to_string_plain[OF assms(2)]
    by (auto simp: list_all_iff printable_def)
  have nc: "CHR 10 \<notin> set (''# '' @ c)"
    using assms(3) by (auto simp: comment_ok_def list_all_iff printable_def)
  have 1: "raw @ added_text k v (Some c) =
             raw @ CHR 10 # ((k @ '': '' @ to_string v) @ CHR 10 # (if c = [] then [] else (''# '' @ c) @ CHR 10 # []))"
    by (simp add: added_text_def truthy_def)
  show ?thesis
    unfolding 1
    using nk nc
    by (simp only: split_char_append split_char_none split: if_splits) (simp add: split_char_none)
qed

lemma yaml_lines_added:
  assumes "yaml_lines raw = Inr (Some vs)" "k \<notin> set (map fst vs)"
      "valid_key k" "plain_value v" "comment_ok c"
  shows "yaml_lines (raw @ added_text k v (Some c)) = Inr (Some (vs @ [(k, v)]))"
proof -
  have p: "parse_lines [] (split_char (CHR 10) raw) = Inr vs" "vs \<noteq> []"
    using assms(1) by (simp_all add: yaml_lines_Some)
  have cm: "c \<noteq> [] \<Longrightarrow> classify (''# '' @ c) = Skip"
    using assms(5) classify_comment[of c] by (auto simp: comment_ok_def)
  have "parse_lines [] (split_char (CHR 10) (raw @ added_text k v (Some c))) = Inr (vs @ [(k, v)])"
    unfolding added_text_lines[OF assms(3,4,5)] parse_lines_append p
    using classify_entry[OF assms(3,4)] assms(2) cm classify_empty
    by (cases "c = []") (simp_all del: set_map)
  then show ?thesis by (simp add: yaml_lines_Some)
qed

lemma resolve_value_Entry: "resolve_value k t = Entry k' v \<Longrightarrow> k' = k"
  by (auto simp: resolve_value_def split: option.splits if_splits)

lemma classify_Entry: "classify l = Entry k v \<Longrightarrow> valid_key k"
  by (auto simp: classify_def Let_def split: if_splits dest: resolve_value_Entry)

lemma parse_lines_good:
  "parse_lines acc ls = Inr es \<Longrightarrow> good_keys acc \<Longrightarrow> good_keys es"
proof (induction ls arbitrary: acc)
  case Nil
  then show ?case by simp
next
  case (Cons l ls)
  show ?case
  proof (cases "classify l")
    case Skip
    then show ?thesis using Cons by simp
  next
    case (Entry k v)
    then have nk: "k \<notin> set (map fst acc)" and rest: "parse_lines (acc @ [(k, v)]) ls = Inr es"
      using Cons.prems(1) by (auto split: if_splits)
    have "good_keys (acc @ [(k, v)])"
      using Cons.prems(2) nk classify_Entry[OF Entry] by (auto simp: good_keys_def)
    then show ?thesis using Cons.IH[OF rest] by simp
  next
    case Invalid
    then show ?thesis using Cons by simp
  next
    case Bad
    then show ?thesis using Cons by simp
  qed
qed

lemma yaml_lines_good: "yaml_lines s = Inr (Some vs) \<Longrightarrow> good_keys vs"
  using parse_lines_good[of "[]" "split_char (CHR 10) s" vs]
  by (simp add: yaml_lines_Some good_keys_def)

lemma parse_lines_no_bad:
  "parse_lines acc ls = Inr es \<Longrightarrow> \<forall>l \<in> set ls. classify l \<noteq> Bad \<and> classify l \<noteq> Invalid"
  by (induction ls arbitrary: acc) (auto split: yaml_line.splits if_splits)

lemma trim_chars: "set t \<subseteq> set (trim t) \<union> {CHR '' ''}"
proof -
  let ?sp = "\<lambda>c. c = CHR '' ''"
  let ?d = "dropWhile ?sp t"
  have 1: "set t = set (takeWhile ?sp t) \<union> set ?d"
    by (metis set_append takeWhile_dropWhile_id)
  have 2: "set ?d = set (takeWhile ?sp (rev ?d)) \<union> set (dropWhile ?sp (rev ?d))"
    by (metis set_append set_rev takeWhile_dropWhile_id)
  have 3: "set (takeWhile ?sp xs) \<subseteq> {CHR '' ''}" for xs
    using set_takeWhileD[of _ ?sp xs] by auto
  have 4: "set (trim t) = set (dropWhile ?sp (rev ?d))" by (simp add: trim_def)
  show ?thesis using 1 2 3[of t] 3[of "rev ?d"] 4 by auto
qed

lemma resolve_scalar_printable: "resolve_scalar t = Some v \<Longrightarrow> list_all printable t"
proof -
  assume a: "resolve_scalar t = Some v"
  consider "t = []" | "t = ''null''" | "t = ''true''" | "t = ''false''"
    | "valid_string t" | i where "resolve_int t = Some i"
    using a by (auto simp: resolve_scalar_def split: if_splits)
  then show ?thesis
  proof cases
    case 5
    then show ?thesis using class_printable by (auto simp: valid_string_def list_all_iff)
  next
    case 6
    then show ?thesis using resolve_int_Some[OF 6] show_int_head[of i] by simp
  qed (simp_all add: printable_def)
qed

lemma double_quoted_printable: "double_quoted t = Some q \<Longrightarrow> list_all printable t"
proof -
  assume a: "double_quoted t = Some q"
  then have l: "2 \<le> length t" and h: "hd t = CHR 0x22" and e: "last t = CHR 0x22"
    and m: "list_all (\<lambda>c. printable c \<and> c \<noteq> CHR 0x22 \<and> c \<noteq> CHR 0x5C) (butlast (tl t))"
    by (auto simp: double_quoted_def split: if_splits)
  have t: "t = hd t # butlast (tl t) @ [last t]"
    using l by (cases t) (auto simp: Suc_le_eq)
  have "printable (CHR 0x22)" by (simp add: printable_def)
  moreover have "list_all printable (butlast (tl t))"
    using m by (rule list.pred_mono_strong) simp
  ultimately have "list_all printable (hd t # butlast (tl t) @ [last t])"
    using h e by simp
  then show ?thesis using t by simp
qed

lemma resolve_value_printable:
  "resolve_value k t \<noteq> Bad \<Longrightarrow> resolve_value k t \<noteq> Invalid \<Longrightarrow> list_all printable t"
  by (auto simp: resolve_value_def split: option.splits if_splits
      dest: resolve_scalar_printable double_quoted_printable)

lemma classify_printable:
  "classify l \<noteq> Bad \<Longrightarrow> classify l \<noteq> Invalid \<Longrightarrow> list_all printable l"
proof -
  assume a: "classify l \<noteq> Bad" and b: "classify l \<noteq> Invalid"
  show ?thesis
  proof (cases "list_all (\<lambda>c. c = CHR '' '') l")
    case True
    show ?thesis using True by (rule list.pred_mono_strong) (simp add: printable_def)
  next
    case False
    show ?thesis
    proof (cases "hd l = CHR ''#''")
      case True
      then show ?thesis using a False by (auto simp: classify_def split: if_splits)
    next
      case h: False
      define k where "k = takeWhile (\<lambda>c. c \<noteq> CHR '':'') l"
      define r where "r = dropWhile (\<lambda>c. c \<noteq> CHR '':'') l"
      have cl: "classify l =
          (if r = [] \<or> \<not> valid_key k then Bad
           else if tl r \<noteq> [] \<and> hd (tl r) \<noteq> CHR '' '' then Bad
           else resolve_value k (trim (tl r)))"
        unfolding classify_def k_def r_def Let_def using False h by (simp only: if_False)
      have e1: "r \<noteq> []" and e2: "valid_key k"
        using a cl by (auto split: if_splits)
      have e3: "resolve_value k (trim (tl r)) \<noteq> Bad" "resolve_value k (trim (tl r)) \<noteq> Invalid"
        using a b cl e1 e2 by (auto split: if_splits)
      have l: "l = k @ r" unfolding k_def r_def by simp
      have hr: "hd r = CHR '':''"
        using e1 hd_dropWhile[of "\<lambda>c. c \<noteq> CHR '':''" l] unfolding r_def by auto
      have pk: "list_all printable k" using valid_key_chars[OF e2] by simp
      have "list_all printable (trim (tl r))" using e3 by (rule resolve_value_printable)
      moreover have sp: "printable (CHR '' '')" "printable (CHR '':'')" by (simp_all add: printable_def)
      ultimately have pt: "list_all printable (tl r)"
        using trim_chars[of "tl r"] by (auto simp: list_all_iff)
      have "list_all printable r"
        using e1 hr pt sp by (cases r) auto
      then show ?thesis using pk unfolding l by simp
    qed
  qed
qed

lemma yaml_lines_printable:
  assumes "yaml_lines t = Inr d"
  shows "\<forall>ch \<in> set t. printable ch \<or> ch = CHR 10"
proof -
  obtain es where "parse_lines [] (split_char (CHR 10) t) = Inr es"
    using assms by (auto simp: yaml_lines_def split: sum.splits)
  then have "\<forall>l \<in> set (split_char (CHR 10) t). list_all printable l"
    using parse_lines_no_bad classify_printable by blast
  then show ?thesis using split_char_covers[of t "CHR 10"] by (auto simp: list_all_iff)
qed

lemma template_comment_ok:
  assumes "yaml_lines t = Inr d"
  shows "comment_ok (template_comment t k)"
proof (cases "template_comment t k = []")
  case True
  then show ?thesis by (simp add: comment_ok_def)
next
  case False
  let ?c = "template_comment t k"
  from False obtain fetch r1 r2 where
    d: "drop 1 (split_str (CHR 10 # k @ '':'') t) = fetch # r1"
       "drop 1 (split_char (CHR 10) fetch) = ?c # r2" "starts_with ''#'' ?c"
    by (auto simp: template_comment_def split: list.splits if_splits)
  have f: "fetch \<in> set (split_str (CHR 10 # k @ '':'') t)"
    using d(1) by (metis in_set_dropD list.set_intros(1))
  have c: "?c \<in> set (split_char (CHR 10) fetch)" "starts_with ''#'' ?c"
    using d(2,3) by (metis in_set_dropD list.set_intros(1), simp)
  have "set ?c \<subseteq> set t" "CHR 10 \<notin> set ?c"
    using split_char_pieces[OF c(1)] split_str_pieces[OF f] by auto
  then have "list_all printable ?c"
    using yaml_lines_printable[OF assms] by (auto simp: list_all_iff)
  moreover have "hd ?c = CHR ''#''" using c(2) by (cases ?c) auto
  ultimately show ?thesis by (simp add: comment_ok_def)
qed

subsection \<open>Writing and reconciling\<close>

lemma butlast_neq: "p \<noteq> [] \<Longrightarrow> butlast p \<noteq> p"
  by (metis append_butlast_last_id append_self_conv not_Cons_self2)

lemma write_existing:
  assumes "p_path obj \<noteq> []" "is_dir (fs w) (butlast (p_path obj))"
      "fs w (p_path obj) = Some (File c)"
  shows "Properties_write P (obj, w) =
           (case P (p_raw obj) of
              Inl e \<Rightarrow> (Inl e, obj, written obj w (p_raw obj))
            | Inr d \<Rightarrow> (Inr (), obj\<lparr>p_values := d\<rparr>, written obj w (p_raw obj)))"
proof -
  let ?p = "p_path obj" and ?f = "(fs w)(p_path obj \<mapsto> File (p_raw obj))"
  have nd: "\<not> is_dir (fs w) ?p" using assms(1,3) by (simp add: is_dir_def)
  have wr: "writeFileSync ?p (p_raw obj) (fs w) = (Inr (), ?f)"
    using nd assms(2) by (simp add: writeFileSync_def)
  have d: "butlast ?p = [] \<or> ?f (butlast ?p) \<noteq> None"
    using assms(1,2) butlast_neq[OF assms(1)] by (auto simp: is_dir_def)
  have rd: "readFileSync ?p ?f = (Inr (p_raw obj), ?f)" by (simp add: readFileSync_def)
  show ?thesis
    using wr d rd assms(1)
    by (cases "P (p_raw obj)")
       (auto simp: Properties_write_def Properties_read_def Let_def eff_defs existsSync_def
          written_def)
qed

lemma store_ok_written:
  "store_ok obj w \<Longrightarrow> store_ok (obj\<lparr>p_raw := t, p_values := d\<rparr>) (written obj w t)"
  using butlast_neq[of "p_path obj"]
  by (auto simp: store_ok_def written_def is_dir_def dirs_creatable_longer)

lemma addValue_existing:
  assumes "store_ok obj w" "p_values obj = Some vs" "key \<notin> set (map fst vs)"
      "P (p_raw obj @ added_text key v message) = Inr d"
  shows "Properties_addValue P key v message (obj, w) =
           (Inr (), obj\<lparr>p_raw := p_raw obj @ added_text key v message, p_values := d\<rparr>,
            written obj w (p_raw obj @ added_text key v message))"
proof -
  let ?raw = "p_raw obj @ added_text key v message"
  let ?o1 = "obj\<lparr>p_values := Some (AList.update key v vs), p_raw := ?raw\<rparr>"
  have "Properties_write P (?o1, w) = (Inr (), ?o1\<lparr>p_values := d\<rparr>, written ?o1 w ?raw)"
    using write_existing[of ?o1 w "p_raw obj" P] assms(1,4) by (simp add: store_ok_def)
  then show ?thesis
    using assms(2,3)
    by (simp add: Properties_addValue.simps addValue_direct_def assign_value_def eff_defs
          written_def del: set_map)
qed

lemma addValue_rejected:
  assumes "store_ok obj w" "p_values obj = Some vs" "key \<notin> set (map fst vs)"
      "P (p_raw obj @ added_text key v message) = Inl e"
  shows "Properties_addValue P key v message (obj, w) =
           (Inl e, obj\<lparr>p_values := Some (AList.update key v vs),
                      p_raw := p_raw obj @ added_text key v message\<rparr>,
            written obj w (p_raw obj @ added_text key v message))"
proof -
  let ?raw = "p_raw obj @ added_text key v message"
  let ?o1 = "obj\<lparr>p_values := Some (AList.update key v vs), p_raw := ?raw\<rparr>"
  have "Properties_write P (?o1, w) = (Inl e, ?o1, written ?o1 w ?raw)"
    using write_existing[of ?o1 w "p_raw obj" P] assms(1,4) by (simp add: store_ok_def)
  then show ?thesis
    using assms(2,3)
    by (simp add: Properties_addValue.simps addValue_direct_def assign_value_def eff_defs
          written_def del: set_map)
qed

lemma setValue_existing:
  assumes "store_ok obj w" "p_values obj = Some vs" "key \<in> set (map fst vs)"
      and t: "t = replace_key_lines key (key @ '': '' @ to_string v) (p_raw obj)"
  shows "Properties_setValue P key v (obj, w) =
           (case P t of
              Inl e \<Rightarrow> (Inl e, obj\<lparr>p_values := Some (AList.update key v vs), p_raw := t\<rparr>, written obj w t)
            | Inr d \<Rightarrow> (Inr (), obj\<lparr>p_raw := t, p_values := d\<rparr>, written obj w t))"
proof -
  let ?o1 = "obj\<lparr>p_values := Some (AList.update key v vs), p_raw := t\<rparr>"
  have ok: "p_path ?o1 \<noteq> []" "is_dir (fs w) (butlast (p_path ?o1))"
      "fs w (p_path ?o1) = Some (File (p_raw obj))"
    using assms(1) by (simp_all add: store_ok_def)
  have st: "Properties_setValue P key v (obj, w) = Properties_write P (?o1, w)"
    using assms(2,3)
    by (simp add: Properties_setValue.simps setValue_direct_def assign_value_def eff_defs t
          del: set_map)
  show ?thesis
    using write_existing[OF ok, of P] st
    by (cases "P t") (simp_all add: written_def)
qed

lemma reconcile_appends:
  assumes "store_ok obj w" "p_values obj = Some vs" "yaml_lines (p_raw obj) = Inr (Some vs)"
      "yaml_lines (p_template obj) = Inr dt" "good_keys ds"
      "\<forall>kv \<in> set ds. fst kv \<notin> set (map fst vs) \<longrightarrow> plain_value (snd kv)"
  shows "\<exists>obj' w'. reconcile yaml_lines ds (obj, w) = (Inr (), obj', w')
           \<and> p_values obj' = Some (vs @ filter (\<lambda>kv. fst kv \<notin> set (map fst vs)) ds)
           \<and> p_raw obj' = p_raw obj @ appended_text (p_template obj)
                                       (filter (\<lambda>kv. fst kv \<notin> set (map fst vs)) ds)
           \<and> p_path obj' = p_path obj \<and> p_template obj' = p_template obj
           \<and> store_ok obj' w' \<and> diagnostics w' = diagnostics w
           \<and> propertiesDebug w' = propertiesDebug w \<and> cwd w' = cwd w"
  using assms
proof (induction ds arbitrary: obj w vs)
  case Nil
  then show ?case by (simp add: appended_text_def)
next
  case (Cons a ds)
  obtain k v where a: "a = (k, v)" by (cases a)
  have gd: "good_keys ds" and kv: "valid_key k" and knd: "k \<notin> set (map fst ds)"
    using Cons.prems(5) a by (auto simp: good_keys_def)
  have pl: "\<forall>kv \<in> set ds. fst kv \<notin> set (map fst vs) \<longrightarrow> plain_value (snd kv)"
    using Cons.prems(6) by simp
  show ?case
  proof (cases "k \<in> set (map fst vs)")
    case True
    then have r: "reconcile yaml_lines (a # ds) (obj, w) = reconcile yaml_lines ds (obj, w)"
      using a Cons.prems(2) by (simp del: set_map)
    from Cons.IH[OF Cons.prems(1,2,3,4) gd pl] show ?thesis
      unfolding r using True a by (simp del: set_map)
  next
    case False
    have pv: "plain_value v" using Cons.prems(6) a False by simp
    have pl1: "\<forall>kv \<in> set ds. fst kv \<notin> set (map fst (vs @ [(k, v)])) \<longrightarrow> plain_value (snd kv)"
      using pl by simp
    let ?c = "template_comment (p_template obj) k"
    let ?raw = "p_raw obj @ added_text k v (Some ?c)"
    let ?o1 = "obj\<lparr>p_raw := ?raw, p_values := Some (vs @ [(k, v)])\<rparr>"
    let ?w1 = "written obj w ?raw"
    have y: "yaml_lines ?raw = Inr (Some (vs @ [(k, v)]))"
      using yaml_lines_added[OF Cons.prems(3) False kv pv template_comment_ok[OF Cons.prems(4)]] .
    have av: "Properties_addValue yaml_lines k v (Some ?c) (obj, w) = (Inr (), ?o1, ?w1)"
      using addValue_existing[where P = yaml_lines and message = "Some ?c", OF Cons.prems(1,2) False y] .
    have r: "reconcile yaml_lines (a # ds) (obj, w) = reconcile yaml_lines ds (?o1, ?w1)"
      using a Cons.prems(2) False av by (simp del: set_map)
    have ok1: "store_ok ?o1 ?w1" using Cons.prems(1) by (rule store_ok_written)
    have t1: "yaml_lines (p_template ?o1) = Inr dt" using Cons.prems(4) by simp
    have f: "filter (\<lambda>kv. fst kv \<notin> set (map fst (vs @ [(k, v)]))) ds
               = filter (\<lambda>kv. fst kv \<notin> set (map fst vs)) ds"
      using knd by (intro filter_cong) auto
    from Cons.IH[OF ok1 _ _ t1 gd pl1] y
    obtain obj' w' where
      "reconcile yaml_lines ds (?o1, ?w1) = (Inr (), obj', w')"
      "p_values obj' = Some ((vs @ [(k, v)]) @ filter (\<lambda>kv. fst kv \<notin> set (map fst (vs @ [(k, v)]))) ds)"
      "p_raw obj' = p_raw ?o1 @ appended_text (p_template ?o1)
                                       (filter (\<lambda>kv. fst kv \<notin> set (map fst (vs @ [(k, v)]))) ds)"
      "p_path obj' = p_path ?o1" "p_template obj' = p_template ?o1"
      "store_ok obj' w'" "diagnostics w' = diagnostics ?w1" "propertiesDebug w' = propertiesDebug ?w1"
      "cwd w' = cwd ?w1"
      by auto
    then show ?thesis
      unfolding r f using a False
      by (simp add: appended_text_def written_def del: set_map)
  qed
qed

lemma Properties_new_fresh:
  assumes "P template = Inr (Some m)"
      and "path = Properties_path (cwd w) plugin rel"
      and "path \<noteq> []" and "fs w path = None"
      and "dirs_creatable (fs w) [] (butlast path)"
  shows "\<exists>w'. Properties_new P plugin rel template w =
                 (Inr \<lparr>p_path = path, p_template = template, p_raw = template, p_values = Some m\<rparr>, w')
            \<and> store_ok \<lparr>p_path = path, p_template = template, p_raw = template, p_values = Some m\<rparr> w'
            \<and> cwd w' = cwd w"
proof -
  let ?obj = "\<lparr>p_path = path, p_template = template, p_raw = [], p_values = None\<rparr>"
  have "\<exists>g. Properties_read P (?obj, w) =
           (Inr (Some m), ?obj\<lparr>p_raw := template\<rparr>,
            w\<lparr>fs := g(path \<mapsto> File template),
              diagnostics := diagnostics w @ (if propertiesDebug w then [CreatedProperties path] else [])\<rparr>)
         \<and> dirs_creatable (g(path \<mapsto> File template)) [] (butlast path)
         \<and> is_dir (g(path \<mapsto> File template)) (butlast path)"
    using read_fresh[of w ?obj P] assms(1,3,4,5) by auto
  then obtain g where
    g: "Properties_read P (?obj, w) =
           (Inr (Some m), ?obj\<lparr>p_raw := template\<rparr>,
            w\<lparr>fs := g(path \<mapsto> File template),
              diagnostics := diagnostics w @ (if propertiesDebug w then [CreatedProperties path] else [])\<rparr>)"
       "dirs_creatable (g(path \<mapsto> File template)) [] (butlast path)"
       "is_dir (g(path \<mapsto> File template)) (butlast path)"
    by blast
  have rec: "\<And>s. p_values (fst s) = Some m \<Longrightarrow> reconcile P m s = (Inr (), s)"
    by (rule reconcile_all_present) auto
  show ?thesis
    using g assms(1,3)
    by (simp add: Properties_new_def Properties_init_def eff_defs assms(2)[symmetric] rec store_ok_def)
qed

lemma Properties_new_existing:
  assumes "fs w path = Some (File live)" and "yaml_lines live = Inr (Some m)"
      and "yaml_lines template = Inr dt"
      and "path = Properties_path (cwd w) plugin rel"
      and "path \<noteq> []"
      and "dirs_creatable (fs w) [] (butlast path)"
      and "\<forall>kv \<in> set (missing_defaults m dt). plain_value (snd kv)"
  shows "\<exists>obj w'. Properties_new yaml_lines plugin rel template w = (Inr obj, w')
            \<and> p_values obj = Some (m @ missing_defaults m dt)
            \<and> p_raw obj = live @ appended_text template (missing_defaults m dt)
            \<and> p_path obj = path \<and> p_template obj = template \<and> store_ok obj w'
            \<and> cwd w' = cwd w"
proof -
  let ?obj = "\<lparr>p_path = path, p_template = template, p_raw = [], p_values = None\<rparr>"
  let ?obj1 = "\<lparr>p_path = path, p_template = template, p_raw = live, p_values = Some m\<rparr>"
  have "\<exists>g. Properties_read yaml_lines (?obj, w) = (Inr (Some m), ?obj\<lparr>p_raw := live\<rparr>, w\<lparr>fs := g\<rparr>)
       \<and> g path = Some (File live) \<and> dirs_creatable g [] (butlast path) \<and> is_dir g (butlast path)"
    using read_existing[of w ?obj live yaml_lines] assms(1,2,5,6) by auto
  then obtain g where
    g: "Properties_read yaml_lines (?obj, w) = (Inr (Some m), ?obj\<lparr>p_raw := live\<rparr>, w\<lparr>fs := g\<rparr>)"
       "g path = Some (File live)" "dirs_creatable g [] (butlast path)" "is_dir g (butlast path)"
    by blast
  have ok: "store_ok ?obj1 (w\<lparr>fs := g\<rparr>)"
    using g(2,3,4) assms(5) by (simp add: store_ok_def)
  have ge: "good_keys (case dt of None \<Rightarrow> [] | Some d \<Rightarrow> d)"
    using assms(3) yaml_lines_good by (cases dt) (auto simp: good_keys_def)
  have pl: "\<forall>kv \<in> set (case dt of None \<Rightarrow> [] | Some d \<Rightarrow> d).
              fst kv \<notin> set (map fst m) \<longrightarrow> plain_value (snd kv)"
    using assms(7) by (simp add: missing_defaults_def)
  from reconcile_appends[OF ok, of m dt "case dt of None \<Rightarrow> [] | Some d \<Rightarrow> d"] assms(2,3) ge pl
  obtain obj' w' where
    r: "reconcile yaml_lines (case dt of None \<Rightarrow> [] | Some d \<Rightarrow> d) (?obj1, w\<lparr>fs := g\<rparr>) = (Inr (), obj', w')"
       "p_values obj' = Some (m @ missing_defaults m dt)"
       "p_raw obj' = live @ appended_text template (missing_defaults m dt)"
       "p_path obj' = path" "p_template obj' = template" "store_ok obj' w'"
       "propertiesDebug w' = propertiesDebug w" "cwd w' = cwd w"
    by (auto simp: missing_defaults_def)
  have sk: "store_ok obj' (w'\<lparr>diagnostics := ds\<rparr>)" for ds
    using r(6) by (simp add: store_ok_def)
  show ?thesis
    using g(1) assms(3) r sk
    by (simp add: Properties_new_def Properties_init_def eff_defs assms(4)[symmetric])
qed

lemma Properties_new_regenerated:
  assumes "fs w path = Some (File content)" and "P content = Inl e"
      and "P template = Inr d"
      and "path = Properties_path (cwd w) plugin rel"
      and "path \<noteq> []"
      and "dirs_creatable (fs w) [] (butlast path)"
  shows "\<exists>obj w'. Properties_new P plugin rel template w = (Inr obj, w')
            \<and> fs w' path = Some (File template)
            \<and> p_raw obj = template \<and> p_values obj = d
            \<and> diagnostics w' = diagnostics w @
                 (if propertiesDebug w
                  then [CreatedProperties path, InvalidProperties path, ParsedProperties path]
                  else [])"
proof -
  let ?obj = "\<lparr>p_path = path, p_template = template, p_raw = [], p_values = None\<rparr>"
  have "\<exists>g. Properties_read P (?obj, w) = (Inl e, ?obj\<lparr>p_raw := content\<rparr>, w\<lparr>fs := g\<rparr>)
       \<and> g path = Some (File content) \<and> dirs_creatable g [] (butlast path)"
    using read_existing[of w ?obj content P] assms(1,2,5,6) by auto
  then obtain g where
    g: "Properties_read P (?obj, w) = (Inl e, ?obj\<lparr>p_raw := content\<rparr>, w\<lparr>fs := g\<rparr>)"
       "g path = Some (File content)" "dirs_creatable g [] (butlast path)"
    by blast
  let ?obj1 = "\<lparr>p_path = path, p_template = template, p_raw = content, p_values = None\<rparr>"
  let ?w1 = "w\<lparr>fs := g(path := None)\<rparr>"
  have rm: "rmSync path g = (Inr (), g(path := None))"
    using g(2) by (simp add: rmSync_def)
  have cw: "dirs_creatable (fs ?w1) [] (butlast (p_path ?obj1))"
    using g(3) assms(5) by (simp add: dirs_creatable_longer)
  have "\<exists>h. Properties_read P (?obj1, ?w1) =
           (Inr d, ?obj1\<lparr>p_raw := template\<rparr>,
            ?w1\<lparr>fs := h(path \<mapsto> File template),
              diagnostics := diagnostics w @ (if propertiesDebug w then [CreatedProperties path] else [])\<rparr>)"
    using read_fresh[of ?w1 ?obj1 P, OF _ _ cw] assms(3,5) by auto
  then obtain h where
    h: "Properties_read P (?obj1, ?w1) =
           (Inr d, ?obj1\<lparr>p_raw := template\<rparr>,
            ?w1\<lparr>fs := h(path \<mapsto> File template),
              diagnostics := diagnostics w @ (if propertiesDebug w then [CreatedProperties path] else [])\<rparr>)"
    by blast
  have rec: "\<And>s m. d = Some m \<Longrightarrow> p_values (fst s) = Some m \<Longrightarrow> reconcile P m s = (Inr (), s)"
    by (rule reconcile_all_present) auto
  show ?thesis
    using g(1) rm h assms(3)
    by (cases d) (simp_all add: Properties_new_def Properties_init_def eff_defs assms(4)[symmetric] rec)
qed

lemma old_file_parse:
  "yaml_lines old_file = Inr (Some [(''debug'', VBool False), (''port'', VNum 9090)])"
  by (simp add: old_file_def yaml_eval)

lemma new_template_parse:
  "yaml_lines new_template
     = Inr (Some [(''debug'', VBool False), (''port'', VNum 8080), (''timeout'', VNum 30)])"
  by (simp add: new_template_def yaml_eval)

lemma missing_example:
  "missing_defaults [(''debug'', VBool False), (''port'', VNum 9090)]
      (Some [(''debug'', VBool False), (''port'', VNum 8080), (''timeout'', VNum 30)])
     = [(''timeout'', VNum 30)]"
  by (simp add: missing_defaults_def)

lemma appended_example:
  "appended_text new_template [(''timeout'', VNum 30)] = ''\<newline>timeout: 30\<newline>''"
  by (simp add: appended_text_def added_text_def template_comment_def new_template_def truthy_def
        show_int_def show_nat.simps digit_char_def)

lemma motd_is_literal: "regex_literal ''motd''"
  by (simp add: regex_literal_def line_terminator_def)

lemma motd_parse: "yaml_lines ''motd: hello'' = Inr (Some [(''motd'', VStr ''hello'')])"
  by (simp add: yaml_eval)

lemma motd_true_parse: "yaml_lines ''motd: true'' = Inr (Some [(''motd'', VBool True)])"
  by (simp add: yaml_eval)

lemma motd_replace:
  "replace_key_lines ''motd'' (''motd'' @ '': '' @ to_string (VStr ''true'')) ''motd: hello'' = ''motd: true''"
  by (simp add: replace_key_lines_def line_terminator_def)

subsection \<open>Reconciliation\<close>

text \<open>
  Where the defaults of the keys that the live file lacks are plain values, the
  constructor returns and only appends: \<open>values\<close> is the mapping of the live file, every
  key with the value it had, followed by those defaults, and the file is the live text
  followed by the lines appended for them. The scenario of the specification is the
  example: \<open>timeout: 30\<close> joins a file whose \<open>port\<close> keeps its own value.
\<close>

lemma reconcile_plain_defaults:
  assumes "fs w path = Some (File live)" and "yaml_lines live = Inr (Some m)"
      and "yaml_lines template = Inr dt"
      and "path = Properties_path (cwd w) plugin rel"
      and "path \<noteq> []"
      and "dirs_creatable (fs w) [] (butlast path)"
      and "\<forall>kv \<in> set (missing_defaults m dt). plain_value (snd kv)"
  shows "\<exists>obj w'. Properties_new yaml_lines plugin rel template w = (Inr obj, w')
            \<and> p_values obj = Some (m @ missing_defaults m dt)
            \<and> p_raw obj = live @ appended_text template (missing_defaults m dt)
            \<and> fs w' path = Some (File (p_raw obj))
            \<and> (\<forall>k \<in> set (map fst m). Properties_getValue obj k = Inr (map_of m k))
            \<and> (\<forall>kv \<in> set (missing_defaults m dt).
                  Properties_getValue obj (fst kv) = Inr (Some (snd kv)))"
proof -
  from Properties_new_existing[OF assms] obtain obj w' where
    n: "Properties_new yaml_lines plugin rel template w = (Inr obj, w')"
       "p_values obj = Some (m @ missing_defaults m dt)"
       "p_raw obj = live @ appended_text template (missing_defaults m dt)"
       "p_path obj = path" "store_ok obj w'"
    by blast
  have f: "fs w' path = Some (File (p_raw obj))"
    using n(4,5) by (simp add: store_ok_def)
  have old: "Properties_getValue obj k = Inr (map_of m k)" if "k \<in> set (map fst m)" for k
  proof -
    have "k \<in> dom (map_of m)" using that by (simp add: dom_map_of_conv_image_fst)
    then show ?thesis
      using n(2) by (simp add: Properties_getValue_def map_add_dom_app_simps)
  qed
  have ge: "good_keys (case dt of None \<Rightarrow> [] | Some d \<Rightarrow> d)"
    using assms(3) yaml_lines_good by (cases dt) (auto simp: good_keys_def)
  then have dm: "distinct (map fst (missing_defaults m dt))"
    by (simp add: missing_defaults_def good_keys_def distinct_map_filter)
  have new: "Properties_getValue obj (fst kv) = Inr (Some (snd kv))"
    if "kv \<in> set (missing_defaults m dt)" for kv
  proof -
    have "fst kv \<notin> dom (map_of m)"
      using that by (auto simp: missing_defaults_def dom_map_of_conv_image_fst)
    moreover have "map_of (missing_defaults m dt) (fst kv) = Some (snd kv)"
      using that dm map_of_eq_Some_iff[of "missing_defaults m dt" "fst kv" "snd kv"] by simp
    ultimately show ?thesis
      using n(2) by (simp add: Properties_getValue_def map_add_dom_app_simps)
  qed
  from n(1,2,3) f old new show ?thesis by blast
qed

lemma reconcile_example:
  "\<exists>obj w'. Properties_new yaml_lines sconfig ''properties.yaml'' new_template world_old
                = (Inr obj, w')
      \<and> p_values obj
          = Some [(''debug'', VBool False), (''port'', VNum 9090), (''timeout'', VNum 30)]
      \<and> p_raw obj = old_file @ ''\<newline>timeout: 30\<newline>''
      \<and> fs w' example_path = Some (File (p_raw obj))
      \<and> Properties_getValue obj ''port'' = Inr (Some (VNum 9090))
      \<and> Properties_getValue obj ''timeout'' = Inr (Some (VNum 30))"
proof -
  have 1: "fs world_old example_path = Some (File old_file)"
    by (simp add: world_old_def example_path_def)
  note 2 = old_file_parse and 3 = new_template_parse
  have 4: "example_path = Properties_path (cwd world_old) sconfig ''properties.yaml''"
    using example_path_eq by (simp add: world_old_def)
  have 5: "example_path \<noteq> []" by (simp add: example_path_def)
  have 6: "dirs_creatable (fs world_old) [] (butlast example_path)"
    by (simp add: world_old_def example_path_def)
  have 7: "\<forall>kv \<in> set (missing_defaults [(''debug'', VBool False), (''port'', VNum 9090)]
               (Some [(''debug'', VBool False), (''port'', VNum 8080), (''timeout'', VNum 30)])).
             plain_value (snd kv)"
    by (simp add: missing_example valid_number_def)
  from reconcile_plain_defaults
         [where w = world_old and plugin = sconfig, OF 1 2 3 4 5 6 7]
  obtain obj w' where
    r: "Properties_new yaml_lines sconfig ''properties.yaml'' new_template world_old = (Inr obj, w')"
       "p_values obj = Some [(''debug'', VBool False), (''port'', VNum 9090), (''timeout'', VNum 30)]"
       "p_raw obj = old_file @ ''\<newline>timeout: 30\<newline>''"
       "fs w' example_path = Some (File (p_raw obj))"
    unfolding missing_example appended_example by auto
  have "Properties_getValue obj ''port'' = Inr (Some (VNum 9090))"
       "Properties_getValue obj ''timeout'' = Inr (Some (VNum 30))"
    using r(2) by (simp_all add: Properties_getValue_def)
  with r show ?thesis by blast
qed

text \<open>A default that needs its quotes, and the line that \<open>addValue\<close> appends for it.\<close>

lemma live_file_parse: "yaml_lines live_file = Inr (Some [(''debug'', VBool True)])"
  by (simp add: live_file_def yaml_eval)

lemma quoted_template_parse:
  "yaml_lines quoted_template
     = Inr (Some [(''debug'', VBool False), (''motd'', VStr ''server: online'')])"
  by (simp add: quoted_template_def yaml_eval)

lemma motd_added:
  "added_text ''motd'' (VStr ''server: online'') (Some (template_comment quoted_template ''motd''))
     = ''\<newline>motd: server: online\<newline>''"
  by (simp add: added_text_def template_comment_def quoted_template_def truthy_def)

lemma nested_line_rejected:
  "yaml_lines ''debug: true\<newline>motd: server: online\<newline>'' = Inl YamlError"
  by (simp add: yaml_eval)

section \<open>Results\<close>

text \<open>
  C1. When the template parses to the mapping \<open>m\<close> and nothing is at the path of the
  store (and no part of the way to its directory is a file), the constructor returns, and
  the store's \<open>values\<close> are \<open>m\<close>: the keys of the template, in order, each with its
  default. The file holds the text of the template.
\<close>

theorem C1_fresh_store_holds_template_defaults:
  assumes "P template = Inr (Some m)"
      and "path = Properties_path (cwd w) plugin rel"
      and "path \<noteq> []" and "fs w path = None"
      and "dirs_creatable (fs w) [] (butlast path)"
  shows "\<exists>obj w'. Properties_new P plugin rel template w = (Inr obj, w')
            \<and> p_values obj = Some m \<and> p_raw obj = template
            \<and> fs w' path = Some (File template)"
proof -
  let ?obj = "\<lparr>p_path = path, p_template = template, p_raw = [], p_values = None\<rparr>"
  have "\<exists>g. Properties_read P (?obj, w) =
           (Inr (Some m), ?obj\<lparr>p_raw := template\<rparr>,
            w\<lparr>fs := g(path \<mapsto> File template),
              diagnostics := diagnostics w @ (if propertiesDebug w then [CreatedProperties path] else [])\<rparr>)"
    using read_fresh[of w ?obj P] assms(1,3,4,5) by auto
  then obtain g where
    g: "Properties_read P (?obj, w) =
           (Inr (Some m), ?obj\<lparr>p_raw := template\<rparr>,
            w\<lparr>fs := g(path \<mapsto> File template),
              diagnostics := diagnostics w @ (if propertiesDebug w then [CreatedProperties path] else [])\<rparr>)"
    by blast
  have rec: "\<And>s. p_values (fst s) = Some m \<Longrightarrow> reconcile P m s = (Inr (), s)"
    by (rule reconcile_all_present) auto
  show ?thesis
    using g assms(1)
    by (simp add: Properties_new_def Properties_init_def eff_defs assms(2)[symmetric] rec)
qed

theorem C1_witness:
  "yaml_lines example_template = Inr (Some [(''debug'', VBool False), (''port'', VNum 8080)])
   \<and> example_path = Properties_path (cwd world0) sconfig ''properties.yaml''
   \<and> example_path \<noteq> [] \<and> fs world0 example_path = None
   \<and> dirs_creatable (fs world0) [] (butlast example_path)
   \<and> (\<exists>obj w'. Properties_new yaml_lines sconfig ''properties.yaml'' example_template world0 = (Inr obj, w')
            \<and> p_values obj = Some [(''debug'', VBool False), (''port'', VNum 8080)]
            \<and> p_raw obj = example_template
            \<and> fs w' example_path = Some (File example_template))"
proof -
  have 1: "yaml_lines example_template = Inr (Some [(''debug'', VBool False), (''port'', VNum 8080)])"
    by (rule example_template_parse)
  have 2: "example_path = Properties_path (cwd world0) sconfig ''properties.yaml''"
    by (simp add: example_path_eq)
  have 3: "example_path \<noteq> []" by (simp add: example_path_def)
  have 4: "fs world0 example_path = None" by (simp add: world0_def)
  have 5: "dirs_creatable (fs world0) [] (butlast example_path)"
    by (simp add: world0_def example_path_def)
  from C1_fresh_store_holds_template_defaults
         [where P = yaml_lines and w = world0 and plugin = sconfig, OF 1 2 3 4 5] 1 2 3 4 5
  show ?thesis by blast
qed

text \<open>
  C2. When the file at the path of the store holds a text that \<open>parse\<close> rejects, and
  the template parses, the constructor returns: the file holds the text of the template
  again, the store's text and values are those of the template, and with the debug flag
  on the diagnostics are the creation, the warning of line 60 and the success of line 84.
\<close>

theorem C2_unparsable_file_is_regenerated:
  assumes "fs w path = Some (File content)" and "P content = Inl e"
      and "P template = Inr d"
      and "path = Properties_path (cwd w) plugin rel"
      and "path \<noteq> []"
      and "dirs_creatable (fs w) [] (butlast path)"
  shows "\<exists>obj w'. Properties_new P plugin rel template w = (Inr obj, w')
            \<and> fs w' path = Some (File template)
            \<and> p_raw obj = template \<and> p_values obj = d
            \<and> diagnostics w' = diagnostics w @
                 (if propertiesDebug w
                  then [CreatedProperties path, InvalidProperties path, ParsedProperties path]
                  else [])"
  using Properties_new_regenerated[OF assms] .

theorem C2_witness:
  "fs world_corrupt example_path = Some (File ''{ debug'') \<and> yaml_lines ''{ debug'' = Inl YamlError
   \<and> yaml_lines example_template = Inr (Some [(''debug'', VBool False), (''port'', VNum 8080)])
   \<and> example_path = Properties_path (cwd world_corrupt) sconfig ''properties.yaml''
   \<and> example_path \<noteq> []
   \<and> dirs_creatable (fs world_corrupt) [] (butlast example_path)
   \<and> (\<exists>obj w'. Properties_new yaml_lines sconfig ''properties.yaml'' example_template world_corrupt
                    = (Inr obj, w')
            \<and> fs w' example_path = Some (File example_template)
            \<and> p_raw obj = example_template
            \<and> p_values obj = Some [(''debug'', VBool False), (''port'', VNum 8080)])"
proof -
  have 1: "fs world_corrupt example_path = Some (File ''{ debug'')"
    by (simp add: world_corrupt_def example_path_def)
  have 2: "yaml_lines ''{ debug'' = Inl YamlError" by (simp add: yaml_eval)
  have 3: "yaml_lines example_template = Inr (Some [(''debug'', VBool False), (''port'', VNum 8080)])"
    by (rule example_template_parse)
  have 4: "example_path = Properties_path (cwd world_corrupt) sconfig ''properties.yaml''"
    using example_path_eq by (simp add: world_corrupt_def)
  have 5: "example_path \<noteq> []" by (simp add: example_path_def)
  have 6: "dirs_creatable (fs world_corrupt) [] (butlast example_path)"
    by (simp add: world_corrupt_def example_path_def)
  from C2_unparsable_file_is_regenerated
         [where P = yaml_lines and w = world_corrupt and plugin = sconfig, OF 1 2 3 4 5 6]
       1 2 3 4 5 6
  show ?thesis by blast
qed

text \<open>
  C3. The code breaks the round trip where the text of the value does not parse back to
  the value. On a fresh disk, with the template \<open>motd: hello\<close>, the store is opened and
  \<open>getValue("motd")\<close> is the string \<open>hello\<close>; after \<open>setValue("motd", "true")\<close> the
  file holds \<open>motd: true\<close>, and \<open>getValue("motd")\<close> is the boolean \<open>true\<close>, not the
  string that was set, in this store and in a store opened again from the file.
\<close>

theorem C3_string_true_comes_back_as_boolean:
  "\<exists>obj w obj' w'.
      Properties_new yaml_lines sconfig ''properties.yaml'' ''motd: hello'' world0 = (Inr obj, w)
    \<and> Properties_getValue obj ''motd'' = Inr (Some (VStr ''hello''))
    \<and> Properties_setValue yaml_lines ''motd'' (VStr ''true'') (obj, w) = (Inr (), obj', w')
    \<and> Properties_getValue obj' ''motd'' = Inr (Some (VBool True))
    \<and> Properties_getValue obj' ''motd'' \<noteq> Inr (Some (VStr ''true''))
    \<and> fs w' example_path = Some (File ''motd: true'')
    \<and> (\<exists>obj'' w''.
          Properties_new yaml_lines sconfig ''properties.yaml'' ''motd: hello'' w' = (Inr obj'', w'')
        \<and> Properties_getValue obj'' ''motd'' = Inr (Some (VBool True)))"
proof -
  let ?obj = "\<lparr>p_path = example_path, p_template = ''motd: hello'', p_raw = ''motd: hello'',
               p_values = Some [(''motd'', VStr ''hello'')]\<rparr>"
  have p: "example_path = Properties_path (cwd world0) sconfig ''properties.yaml''"
    by (simp add: example_path_eq)
  have "\<exists>w. Properties_new yaml_lines sconfig ''properties.yaml'' ''motd: hello'' world0 = (Inr ?obj, w)
          \<and> store_ok ?obj w \<and> cwd w = cwd world0"
    using Properties_new_fresh[where P = yaml_lines and w = world0 and plugin = sconfig, OF motd_parse p]
    by (simp add: example_path_def world0_def)
  then obtain w where
    w: "Properties_new yaml_lines sconfig ''properties.yaml'' ''motd: hello'' world0 = (Inr ?obj, w)"
       "store_ok ?obj w" "cwd w = cwd world0"
    by blast
  let ?obj' = "?obj\<lparr>p_raw := ''motd: true'', p_values := Some [(''motd'', VBool True)]\<rparr>"
  let ?w' = "written ?obj w ''motd: true''"
  have s: "Properties_setValue yaml_lines ''motd'' (VStr ''true'') (?obj, w) = (Inr (), ?obj', ?w')"
    using setValue_existing[of ?obj w "[(''motd'', VStr ''hello'')]" "''motd''" "''motd: true''"
            "VStr ''true''" yaml_lines] w(2) motd_replace
    by (simp add: motd_true_parse)
  have ok': "store_ok ?obj' ?w'" using w(2) by (rule store_ok_written)
  have f: "fs ?w' example_path = Some (File ''motd: true'')"
    using ok' by (simp add: store_ok_def)
  have p': "example_path = Properties_path (cwd ?w') sconfig ''properties.yaml''"
    using p w(3) by (simp add: written_def)
  have dc: "dirs_creatable (fs ?w') [] (butlast example_path)"
    using ok' by (simp add: store_ok_def)
  have pm: "\<forall>kv \<in> set (missing_defaults [(''motd'', VBool True)] (Some [(''motd'', VStr ''hello'')])).
              plain_value (snd kv)"
    by (simp add: missing_defaults_def)
  from Properties_new_existing[where plugin = sconfig, OF f motd_true_parse motd_parse p' _ dc pm]
  obtain obj'' w'' where
    r: "Properties_new yaml_lines sconfig ''properties.yaml'' ''motd: hello'' ?w' = (Inr obj'', w'')"
       "p_values obj'' = Some ([(''motd'', VBool True)]
           @ missing_defaults [(''motd'', VBool True)] (Some [(''motd'', VStr ''hello'')]))"
    by (auto simp: example_path_def)
  have g'': "Properties_getValue obj'' ''motd'' = Inr (Some (VBool True))"
    using r(2) by (simp add: Properties_getValue_def missing_defaults_def)
  have g: "Properties_getValue ?obj ''motd'' = Inr (Some (VStr ''hello''))"
    by (simp add: Properties_getValue_def)
  have g': "Properties_getValue ?obj' ''motd'' = Inr (Some (VBool True))"
    by (simp add: Properties_getValue_def)
  have n': "Properties_getValue ?obj' ''motd'' \<noteq> Inr (Some (VStr ''true''))"
    by (simp add: Properties_getValue_def)
  from w(1) g s g' n' f r(1) g'' show ?thesis by blast
qed

text \<open>
  C4, as amended. After a construction that returns, \<open>values\<close> is the defaults spread
  over by the persisted data when these deserialise as a whole, and the defaults alone
  otherwise; so every key of the defaults is in \<open>values\<close>, and a persisted entry, where
  the data deserialise, is the one held. After \<open>setValue(key, v)\<close>, whether it returns or
  throws, \<open>values\<close> is what it was with \<open>key\<close> bound to \<open>v\<close>: no key is lost.
\<close>

theorem C4_defaults_floor_and_merge:
  "(Storage_new J type path world defaults w = (Inr obj, w') \<longrightarrow>
       s_values obj = (case persisted J (s_type obj) (fs w) (s_path obj) of
                         Some data \<Rightarrow> spread defaults data | None \<Rightarrow> defaults)
     \<and> set (map fst defaults) \<subseteq> set (map fst (s_values obj))
     \<and> (\<forall>data k v. persisted J (s_type obj) (fs w) (s_path obj) = Some data
            \<and> distinct (map fst data) \<and> (k, v) \<in> set data \<longrightarrow> Storage_getValue obj k = Some v))
   \<and> (Storage_setValue key v (st, w0) = (r, st', w0') \<longrightarrow>
       s_values st' = AList.update key v (s_values st)
     \<and> set (map fst (s_values st)) \<subseteq> set (map fst (s_values st'))
     \<and> Storage_getValue st' key = Some v)"
proof -
  have new: "s_values obj = (case persisted J (s_type obj) (fs w) (s_path obj) of
                         Some data \<Rightarrow> spread defaults data | None \<Rightarrow> defaults)
     \<and> set (map fst defaults) \<subseteq> set (map fst (s_values obj))
     \<and> (\<forall>data k v. persisted J (s_type obj) (fs w) (s_path obj) = Some data
            \<and> distinct (map fst data) \<and> (k, v) \<in> set data \<longrightarrow> Storage_getValue obj k = Some v)"
    if a: "Storage_new J type path world defaults w = (Inr obj, w')"
  proof -
    from Storage_new_success[OF a]
    have v: "s_values obj = (case persisted J (s_type obj) (fs w) (s_path obj) of
                         Some data \<Rightarrow> spread defaults data | None \<Rightarrow> defaults)"
      by simp
    have k: "set (map fst defaults) \<subseteq> set (map fst (s_values obj))"
      using v keys_spread by (auto split: option.splits)
    have g: "Storage_getValue obj k = Some x"
      if "persisted J (s_type obj) (fs w) (s_path obj) = Some data" "distinct (map fst data)"
         "(k, x) \<in> set data" for data k x
    proof -
      have "map_of (rev data) k = Some x"
        using that(2,3) by (simp add: distinct_rev rev_map[symmetric])
      then show ?thesis
        using v that(1) by (simp add: Storage_getValue_def map_of_spread)
    qed
    from v k g show ?thesis by blast
  qed
  have setv: "s_values st' = AList.update key v (s_values st)
     \<and> set (map fst (s_values st)) \<subseteq> set (map fst (s_values st'))
     \<and> Storage_getValue st' key = Some v"
    if b: "Storage_setValue key v (st, w0) = (r, st', w0')"
  proof -
    have "s_values st' = AList.update key v (s_values st)"
      using b
      by (cases "s_type st")
         (auto simp: Storage_setValue_def Storage_writeJson_def Storage_writeSqlite_def eff_defs
            set_storage_values_def split: prod.splits sum.splits)
    then show ?thesis
      using dom_update[of key v "s_values st"] by (auto simp: Storage_getValue_def update_conv')
  qed
  from new setv show ?thesis by blast
qed

theorem C4_witness:
  "Storage_new json_scalars Player ''players.sqlite'' None example_defaults
       (storage_world players_path (Database good_db))
     = (Inr \<lparr>s_path = players_path, s_type = Sqlite, s_values = [(''example'', VBool True)]\<rparr>,
        storage_world players_path (Database good_db))
   \<and> persisted json_scalars Sqlite (fs (storage_world players_path (Database good_db))) players_path
     = Some [(''example'', VBool True)]
   \<and> set (map fst example_defaults) \<subseteq> set (map fst [(''example'', VBool True)])
   \<and> Storage_getValue \<lparr>s_path = players_path, s_type = Sqlite, s_values = [(''example'', VBool True)]\<rparr>
        ''example'' = Some (VBool True)
   \<and> Storage_setValue ''extra'' (VNum 1)
        (players_store, storage_world players_path (Database good_db))
      = (Inr (), players_store\<lparr>s_values := [(''example'', VBool False), (''extra'', VNum 1)]\<rparr>,
         storage_world players_path
           (Database \<lparr>db_table = Some [(''example'', ''true''), (''extra'', ''1'')], db_readonly = False\<rparr>))
   \<and> set (map fst (s_values players_store)) \<subseteq> set (map fst [(''example'', VBool False), (''extra'', VNum 1)])"
proof -
  let ?w = "storage_world players_path (Database good_db)"
  let ?obj = "\<lparr>s_path = players_path, s_type = Sqlite, s_values = [(''example'', VBool True)]\<rparr>"
  let ?st' = "players_store\<lparr>s_values := [(''example'', VBool False), (''extra'', VNum 1)]\<rparr>"
  let ?w' = "storage_world players_path
           (Database \<lparr>db_table = Some [(''example'', ''true''), (''extra'', ''1'')], db_readonly = False\<rparr>)"
  have 1: "Storage_new json_scalars Player ''players.sqlite'' None example_defaults ?w = (Inr ?obj, ?w)"
    by (rule new_good_db)
  have 2: "persisted json_scalars Sqlite (fs ?w) players_path = Some [(''example'', VBool True)]"
    by (rule persisted_good_db)
  have 3: "Storage_setValue ''extra'' (VNum 1) (players_store, ?w) = (Inr (), ?st', ?w')"
    by (simp add: storage_eval players_store_def storage_world_def world0_def players_path_def
          good_db_def example_defaults_def json_stringify_def show_int_def show_nat.simps
          digit_char_def fun_upd_twist)
  from C4_defaults_floor_and_merge
         [of json_scalars Player "''players.sqlite''" None example_defaults ?w ?obj ?w
             "''extra''" "VNum 1" players_store ?w "Inr ()" ?st' ?w']
       1 2 3
  show ?thesis by (simp add: players_store_def example_defaults_def)
qed

text \<open>
  The claim as stated fails for a table with a row that does not deserialise: the key
  \<open>example\<close> is in the defaults (\<open>false\<close>) and in the table (\<open>true\<close>), the row
  \<open>broken\<close> makes \<open>readSqlite\<close> give up before the merge, and the default is held.
\<close>

theorem C4_counterexample:
  "fs (storage_world players_path (Database broken_db)) players_path
     = Some (Database \<lparr>db_table = Some [(''example'', ''true''), (''broken'', ''oops'')],
                       db_readonly = False\<rparr>)
   \<and> json_scalars ''true'' = Inr (VBool True)
   \<and> fst (Storage_new json_scalars Player ''players.sqlite'' None [(''example'', VBool False)]
             (storage_world players_path (Database broken_db)))
     = Inr \<lparr>s_path = players_path, s_type = Sqlite, s_values = [(''example'', VBool False)]\<rparr>"
proof -
  have 1: "fs (storage_world players_path (Database broken_db)) players_path
     = Some (Database \<lparr>db_table = Some [(''example'', ''true''), (''broken'', ''oops'')],
                       db_readonly = False\<rparr>)"
    by (simp add: storage_world_def broken_db_def)
  have 2: "json_scalars ''true'' = Inr (VBool True)" by (simp add: json_scalars_def)
  from new_broken_db 1 2 show ?thesis by (simp add: example_defaults_def)
qed

text \<open>
  C5. The code breaks the claim where the default of a missing key does not parse back
  from its text: \<open>addValue\<close> appends the default without its quotes, the defect of C3.
  The live file holds \<open>debug: true\<close>, and the template gives \<open>debug\<close> the default
  \<open>false\<close> and the new key \<open>motd\<close> the default \<open>"server: online"\<close>. The constructor
  appends the line \<open>motd: server: online\<close>, the parse of line 130 rejects the file, and
  the constructor throws. The file is left with that line, so the next constructor finds
  it unparsable and writes the template over it: \<open>debug\<close>, which the live file had as
  \<open>true\<close>, is \<open>false\<close>.
\<close>

theorem C5_quoted_default_breaks_reconciliation:
  "yaml_lines live_file = Inr (Some [(''debug'', VBool True)])
   \<and> yaml_lines quoted_template
       = Inr (Some [(''debug'', VBool False), (''motd'', VStr ''server: online'')])
   \<and> (\<exists>w'. Properties_new yaml_lines sconfig ''properties.yaml'' quoted_template world_live
               = (Inl YamlError, w')
          \<and> fs w' example_path = Some (File ''debug: true\<newline>motd: server: online\<newline>'')
          \<and> (\<exists>obj w''.
                Properties_new yaml_lines sconfig ''properties.yaml'' quoted_template w'
                  = (Inr obj, w'')
              \<and> Properties_getValue obj ''debug'' = Inr (Some (VBool False))
              \<and> fs w'' example_path = Some (File quoted_template)))"
proof -
  let ?m = "[(''debug'', VBool True)]"
  let ?dt = "[(''debug'', VBool False), (''motd'', VStr ''server: online'')]"
  let ?obj = "\<lparr>p_path = example_path, p_template = quoted_template, p_raw = [], p_values = None\<rparr>"
  let ?obj1 = "\<lparr>p_path = example_path, p_template = quoted_template, p_raw = live_file,
                p_values = Some ?m\<rparr>"
  let ?raw = "''debug: true\<newline>motd: server: online\<newline>''"
  have lp: "yaml_lines live_file = Inr (Some ?m)" by (rule live_file_parse)
  have tp: "yaml_lines quoted_template = Inr (Some ?dt)" by (rule quoted_template_parse)
  have p: "example_path = Properties_path (cwd world_live) sconfig ''properties.yaml''"
    using example_path_eq by (simp add: world_live_def)
  have "\<exists>g. Properties_read yaml_lines (?obj, world_live)
               = (Inr (Some ?m), ?obj\<lparr>p_raw := live_file\<rparr>, world_live\<lparr>fs := g\<rparr>)
          \<and> g example_path = Some (File live_file) \<and> dirs_creatable g [] (butlast example_path)
          \<and> is_dir g (butlast example_path)"
    using read_existing[of world_live ?obj live_file yaml_lines] lp
    by (simp add: world_live_def example_path_def)
  then obtain g where
    g: "Properties_read yaml_lines (?obj, world_live)
          = (Inr (Some ?m), ?obj\<lparr>p_raw := live_file\<rparr>, world_live\<lparr>fs := g\<rparr>)"
       "g example_path = Some (File live_file)" "dirs_creatable g [] (butlast example_path)"
       "is_dir g (butlast example_path)"
    by blast
  let ?w1 = "world_live\<lparr>fs := g\<rparr>"
  have ok: "store_ok ?obj1 ?w1"
    using g(2,3,4) by (simp add: store_ok_def example_path_def)
  have ad: "p_raw ?obj1 @ added_text ''motd'' (VStr ''server: online'')
                (Some (template_comment quoted_template ''motd'')) = ?raw"
    by (simp add: motd_added live_file_def)
  let ?obj2 = "?obj1\<lparr>p_values := Some (AList.update ''motd'' (VStr ''server: online'') ?m),
                      p_raw := ?raw\<rparr>"
  let ?w2 = "written ?obj1 ?w1 ?raw"
  have av: "Properties_addValue yaml_lines ''motd'' (VStr ''server: online'')
              (Some (template_comment quoted_template ''motd'')) (?obj1, ?w1)
              = (Inl YamlError, ?obj2, ?w2)"
    using addValue_rejected[where P = yaml_lines and obj = ?obj1 and w = ?w1 and vs = ?m
            and key = "''motd''" and v = "VStr ''server: online''"
            and message = "Some (template_comment quoted_template ''motd'')" and e = YamlError]
          ok nested_line_rejected
    unfolding ad by simp
  have rc: "reconcile yaml_lines ?dt (?obj1, ?w1) = (Inl YamlError, ?obj2, ?w2)"
    using av by simp
  have n: "Properties_new yaml_lines sconfig ''properties.yaml'' quoted_template world_live
             = (Inl YamlError, ?w2)"
    using g(1) tp rc
    by (simp add: Properties_new_def Properties_init_def eff_defs p[symmetric])
  have f2: "fs ?w2 example_path = Some (File ?raw)" by (simp add: written_def)
  have p2: "example_path = Properties_path (cwd ?w2) sconfig ''properties.yaml''"
    using p by (simp add: written_def)
  have ok2: "store_ok ?obj2 ?w2"
    using store_ok_written[OF ok, where t = ?raw
            and d = "Some (AList.update ''motd'' (VStr ''server: online'') ?m)"]
    by simp
  then have dc2: "dirs_creatable (fs ?w2) [] (butlast example_path)"
    by (simp add: store_ok_def)
  have ne: "example_path \<noteq> []" by (simp add: example_path_def)
  from Properties_new_regenerated[where P = yaml_lines and plugin = sconfig,
         OF f2 nested_line_rejected tp p2 ne dc2]
  obtain obj w'' where
    r: "Properties_new yaml_lines sconfig ''properties.yaml'' quoted_template ?w2 = (Inr obj, w'')"
       "fs w'' example_path = Some (File quoted_template)" "p_values obj = Some ?dt"
    by blast
  have "Properties_getValue obj ''debug'' = Inr (Some (VBool False))"
    using r(3) by (simp add: Properties_getValue_def)
  with lp tp n f2 r(1,2) show ?thesis by blast
qed

text \<open>
  C6. When the upsert of \<open>setValue(key, v)\<close> fails on a store of the embedded-table
  backend, \<open>setValue\<close> returns, \<open>values[key]\<close> is \<open>v\<close>, and the failure is reported as
  an error diagnostic.
\<close>

theorem C6_failed_upsert_keeps_new_value:
  assumes "s_type obj = Sqlite"
      and "fst (sqlite_upsert (s_path obj) key (json_stringify v) (fs w)) = Inl e"
  shows "Storage_setValue key v (obj, w) =
           (Inr (), obj\<lparr>s_values := AList.update key v (s_values obj)\<rparr>,
            w\<lparr>diagnostics := diagnostics w @ [ErrorWriteSqlite (s_path obj)]\<rparr>)
         \<and> Storage_getValue (obj\<lparr>s_values := AList.update key v (s_values obj)\<rparr>) key = Some v
         \<and> level_of (ErrorWriteSqlite (s_path obj)) = Error"
proof -
  obtain f' where f': "sqlite_upsert (s_path obj) key (json_stringify v) (fs w) = (Inl e, f')"
    using assms(2) by (cases "sqlite_upsert (s_path obj) key (json_stringify v) (fs w)") auto
  then have "f' = fs w" by (rule sqlite_upsert_fails_unchanged)
  then show ?thesis
    using assms(1) f'
    by (simp add: storage_defs eff_defs Storage_getValue_def update_conv')
qed

theorem C6_witness:
  "s_type players_store = Sqlite
   \<and> fst (sqlite_upsert (s_path players_store) ''example'' (json_stringify (VBool True))
            (fs (storage_world players_path (Database readonly_db)))) = Inl SqliteReadonly
   \<and> Storage_setValue ''example'' (VBool True)
        (players_store, storage_world players_path (Database readonly_db)) =
        (Inr (), players_store\<lparr>s_values := [(''example'', VBool True)]\<rparr>,
         (storage_world players_path (Database readonly_db))
           \<lparr>diagnostics := [ErrorWriteSqlite players_path]\<rparr>)
   \<and> Storage_getValue (players_store\<lparr>s_values := [(''example'', VBool True)]\<rparr>) ''example''
        = Some (VBool True)"
proof -
  let ?w = "storage_world players_path (Database readonly_db)"
  have 1: "s_type players_store = Sqlite" by (simp add: players_store_def)
  have 2: "fst (sqlite_upsert (s_path players_store) ''example'' (json_stringify (VBool True))
            (fs ?w)) = Inl SqliteReadonly"
    by (simp add: players_store_def storage_world_def readonly_db_def sqlite_upsert_def)
  have 3: "AList.update ''example'' (VBool True) (s_values players_store) = [(''example'', VBool True)]"
    by (simp add: players_store_def example_defaults_def)
  have 4: "diagnostics ?w = []" by (simp add: storage_world_def world0_def)
  have 5: "s_path players_store = players_path" by (simp add: players_store_def)
  from C6_failed_upsert_keeps_new_value[OF 1 2] 1 2 show ?thesis by (simp add: 3 4 5)
qed

text \<open>
  C7, as amended. The constructor throws one of its three configuration errors exactly in
  the configuration-error cases, and leaves the world as it was; an error it throws in any
  other case is one of the file system or of the database engine. The defaults are values
  of \<open>jsval\<close>, data that \<open>JSON.stringify\<close> serialises: line 409 is outside any \<open>try\<close>,
  and a default that it refuses (a \<open>BigInt\<close>, an object that contains itself) is not
  among them.
\<close>

theorem C7_configuration_errors:
  "((\<exists>e. fst (Storage_new J type path world defaults w) = Inl e \<and> configuration_error e)
      \<longleftrightarrow> configuration_error_case (cwd w) type path world)
   \<and> (configuration_error_case (cwd w) type path world \<longrightarrow>
        snd (Storage_new J type path world defaults w) = w)
   \<and> (\<forall>e. fst (Storage_new J type path world defaults w) = Inl e
            \<and> \<not> configuration_error_case (cwd w) type path world
          \<longrightarrow> file_system_error e \<or> engine_error e)"
proof -
  obtain r w' where res: "Storage_new J type path world defaults w = (r, w')"
    by (cases "Storage_new J type path world defaults w")
  show ?thesis
  proof (cases "configuration_error_case (cwd w) type path world")
    case True
    from Storage_new_configuration_error[OF True, of J defaults] obtain e where
      e: "Storage_new J type path world defaults w = (Inl e, w)" by blast
    from Storage_new_error[OF e] True have "configuration_error e" by simp
    then show ?thesis using e True by auto
  next
    case False
    have out: "file_system_error e \<or> engine_error e" if "r = Inl e" for e
      using res that Storage_new_error[of J type path world defaults w e w'] False by simp
    then have "\<not> (\<exists>e. r = Inl e \<and> configuration_error e)"
      using outside_error_not_configuration by blast
    then show ?thesis using res False out by simp
  qed
qed

theorem C7_witness:
  "configuration_error_case (cwd world0) World ''data.json'' None
   \<and> (\<exists>e. fst (Storage_new json_scalars World ''data.json'' None example_defaults world0) = Inl e
          \<and> configuration_error e)
   \<and> snd (Storage_new json_scalars World ''data.json'' None example_defaults world0) = world0
   \<and> fst (Storage_new json_scalars Player ''players.sqlite'' None example_defaults
             (storage_world players_path Dir)) = Inl SqliteCantOpen
   \<and> \<not> configuration_error_case (cwd (storage_world players_path Dir)) Player
          ''players.sqlite'' None
   \<and> (file_system_error SqliteCantOpen \<or> engine_error SqliteCantOpen)"
proof -
  have 1: "configuration_error_case (cwd world0) World ''data.json'' None"
    by (simp add: configuration_error_case_def no_world_def)
  have be: "backend_of players_path = Inr Sqlite"
    by (simp add: path_eval players_path_def)
  have 2: "\<not> configuration_error_case (cwd (storage_world players_path Dir)) Player
        ''players.sqlite'' None"
    using be by (simp add: configuration_error_case_def players_resolve bad_extension_def backend_of_def
          split: if_splits)
  have 3: "fst (Storage_new json_scalars Player ''players.sqlite'' None example_defaults
             (storage_world players_path Dir)) = Inl SqliteCantOpen"
    by (simp add: Storage_new_def players_resolve be)
       (simp add: storage_eval storage_world_def world0_def players_path_def)
  from C7_configuration_errors[of json_scalars World "''data.json''" None example_defaults world0]
       C7_configuration_errors[of json_scalars Player "''players.sqlite''" None example_defaults
         "storage_world players_path Dir"]
       1 2 3
  show ?thesis by blast
qed

text \<open>
  The claim as stated fails where the \<open>.sqlite\<close> path holds a file that is no database:
  nothing is wrong with the configuration, and the constructor throws the engine's error.
\<close>

theorem C7_counterexample:
  "\<not> configuration_error_case (cwd (storage_world players_path (File ''hello''))) Player
        ''players.sqlite'' None
   \<and> fst (Storage_new json_scalars Player ''players.sqlite'' None example_defaults
             (storage_world players_path (File ''hello''))) = Inl SqliteNotADatabase"
proof -
  have be: "backend_of players_path = Inr Sqlite"
    by (simp add: path_eval players_path_def)
  have 1: "\<not> configuration_error_case (cwd (storage_world players_path (File ''hello''))) Player
        ''players.sqlite'' None"
    using be by (simp add: configuration_error_case_def players_resolve bad_extension_def backend_of_def
          split: if_splits)
  have 2: "fst (Storage_new json_scalars Player ''players.sqlite'' None example_defaults
             (storage_world players_path (File ''hello''))) = Inl SqliteNotADatabase"
    by (simp add: Storage_new_def players_resolve be)
       (simp add: storage_eval storage_world_def world0_def players_path_def)
  from 1 2 show ?thesis by simp
qed

text \<open>
  C8, as amended. When the flat file is there and its text does not deserialise, the
  constructor returns, the file system is as it was, \<open>values\<close> is the defaults, and the
  warning of line 400 is printed if \<open>debugEnabled\<close> is set, and not otherwise.
\<close>

theorem C8_unreadable_json_falls_back_to_defaults:
  assumes "resolvePath (cwd w) type path world = Inr p" and "extname p = ''.json''"
      and "fs w p = Some (File c)" and "J c = Inl e"
      and "is_dir (fs w) (butlast p)"
  shows "Storage_new J type path world defaults w =
           (Inr \<lparr>s_path = p, s_type = Json, s_values = defaults\<rparr>,
            w\<lparr>diagnostics := diagnostics w @
                 (if storageDebug w then [FailedReadJson p, ParsedStorage p] else [])\<rparr>)
         \<and> level_of (FailedReadJson p) = Warn"
  using assms
  by (auto simp: Storage_new_def backend_of_def eff_defs existsSync_def is_dir_def
        Storage_initialize_def Storage_readJson_def readFileSync_def debug_storage_def)

theorem C8_witness:
  "resolvePath (cwd ((storage_world players_json_path (File ''oops''))\<lparr>storageDebug := True\<rparr>))
      Player ''players.json'' None = Inr players_json_path
   \<and> extname players_json_path = ''.json''
   \<and> fs ((storage_world players_json_path (File ''oops''))\<lparr>storageDebug := True\<rparr>) players_json_path
       = Some (File ''oops'')
   \<and> json_scalars ''oops'' = Inl JsonSyntaxError
   \<and> is_dir (fs ((storage_world players_json_path (File ''oops''))\<lparr>storageDebug := True\<rparr>))
        (butlast players_json_path)
   \<and> Storage_new json_scalars Player ''players.json'' None example_defaults
        ((storage_world players_json_path (File ''oops''))\<lparr>storageDebug := True\<rparr>)
      = (Inr \<lparr>s_path = players_json_path, s_type = Json, s_values = example_defaults\<rparr>,
         (storage_world players_json_path (File ''oops''))
           \<lparr>diagnostics := [FailedReadJson players_json_path, ParsedStorage players_json_path],
            storageDebug := True\<rparr>)"
proof -
  let ?w = "(storage_world players_json_path (File ''oops''))\<lparr>storageDebug := True\<rparr>"
  have 1: "resolvePath (cwd ?w) Player ''players.json'' None = Inr players_json_path"
    using players_json_resolve[of players_json_path "File ''oops''"] by (simp add: storage_world_def)
  have 2: "extname players_json_path = ''.json''"
    by (simp add: path_eval players_json_path_def)
  have 3: "fs ?w players_json_path = Some (File ''oops'')" by (simp add: storage_world_def)
  have 4: "json_scalars ''oops'' = Inl JsonSyntaxError" by (simp add: json_eval)
  have 5: "is_dir (fs ?w) (butlast players_json_path)"
    by (simp add: is_dir_def storage_world_def players_json_path_def)
  have 6: "diagnostics ?w = []" "storageDebug ?w" by (simp_all add: storage_world_def world0_def)
  from C8_unreadable_json_falls_back_to_defaults
         [where J = json_scalars and w = ?w and type = Player and defaults = example_defaults,
          OF 1 2 3 4 5]
       1 2 3 4 5 6
  show ?thesis by simp
qed

text \<open>
  The claim as stated fails with the debug flag off, its initial value: nothing is printed.
\<close>

theorem C8_counterexample:
  "json_scalars ''oops'' = Inl JsonSyntaxError
   \<and> storageDebug (storage_world players_json_path (File ''oops'')) = False
   \<and> fst (Storage_new json_scalars Player ''players.json'' None example_defaults
             (storage_world players_json_path (File ''oops'')))
       = Inr \<lparr>s_path = players_json_path, s_type = Json, s_values = example_defaults\<rparr>
   \<and> diagnostics (snd (Storage_new json_scalars Player ''players.json'' None example_defaults
             (storage_world players_json_path (File ''oops'')))) = []"
proof -
  have be: "backend_of players_json_path = Inr Json"
    by (simp add: path_eval players_json_path_def)
  have 4: "json_scalars ''oops'' = Inl JsonSyntaxError" by (simp add: json_eval)
  have "Storage_new json_scalars Player ''players.json'' None example_defaults
             (storage_world players_json_path (File ''oops''))
        = (Inr \<lparr>s_path = players_json_path, s_type = Json, s_values = example_defaults\<rparr>,
           storage_world players_json_path (File ''oops''))"
    by (simp add: Storage_new_def players_json_resolve be)
       (simp add: storage_eval storage_world_def world0_def players_json_path_def 4)
  then show ?thesis using 4 by (simp add: storage_world_def world0_def)
qed

text \<open>
  C9. On a POSIX host the plugin path has no backslash, the replacement changes nothing,
  and the properties file is resolved next to the plugin, inside the plugins directory:
  for the plugin at \<open>/srv/plugins/sconfig\<close> with identifier \<open>serenity-config\<close> and the
  file name \<open>properties.yaml\<close> the path is \<open>/srv/plugins/serenity-config/properties.yaml\<close>
  and not \<open>/srv/config/serenity-config/properties.yaml\<close>.
\<close>

theorem C9_posix_path_stays_under_plugins:
  "render (Properties_path [''srv''] \<lparr>plugin_path = ''/srv/plugins/sconfig'', plugin_identifier = ''serenity-config''\<rparr>
             ''properties.yaml'')
     = ''/srv/plugins/serenity-config/properties.yaml''"
  by (simp add: Properties_path_def resolve_def resolve_step_def is_absolute_def render_def)

text \<open>
  C10. \<open>setValue\<close> and \<open>addValue\<close> are total functions (their mutual recursion is
  accepted with a measure on the guard), and a call that hands over is not handed back:
  the method it hands over to runs below its own guard. A call that does not hand over
  runs below its guard, or throws on \<open>values\<close> being \<open>null\<close>.
\<close>

theorem C10_delegation_stops_after_one_step:
  "(delegate (fst s) c = Some c' \<longrightarrow>
      delegate (fst s) c' = None \<and> run_call P c s = run_direct P c' s)
   \<and> (delegate (fst s) c = None \<longrightarrow>
      run_call P c s = (if p_values (fst s) = None then (Inl TypeError, s) else run_direct P c s))"
  by (cases c)
     (auto simp: Properties_setValue.simps Properties_addValue.simps
           simp del: set_map split: option.splits if_splits)

theorem C10_witness:
  "delegate \<lparr>p_path = example_path, p_template = example_template, p_raw = example_template,
              p_values = Some [(''debug'', VBool False), (''port'', VNum 8080)]\<rparr>
      (CallSetValue ''timeout'' (VNum 30)) = Some (CallAddValue ''timeout'' (VNum 30) None)
   \<and> delegate \<lparr>p_path = example_path, p_template = example_template, p_raw = example_template,
              p_values = Some [(''debug'', VBool False), (''port'', VNum 8080)]\<rparr>
      (CallAddValue ''timeout'' (VNum 30) None) = None"
  using C10_delegation_stops_after_one_step
    [of "(\<lparr>p_path = example_path, p_template = example_template, p_raw = example_template,
              p_values = Some [(''debug'', VBool False), (''port'', VNum 8080)]\<rparr>, world0)"
        "CallSetValue ''timeout'' (VNum 30)" "CallAddValue ''timeout'' (VNum 30) None" yaml_lines]
  by simp

end
